theory Spec2Isabelle
  imports Complex_Main "HOL-Library.Word"
begin

section \<open>JavaScript values\<close>

text \<open>
  A JavaScript string is a sequence of UTF-16 code units. \<open>js\<close> is the string of an ASCII
  literal and \<open>ch\<close> the code unit of an ASCII character.
\<close>

type_synonym codeunit = "16 word"

type_synonym jstring = "codeunit list"

definition ch :: "char \<Rightarrow> codeunit" where
  "ch c = of_char c"

definition js :: "string \<Rightarrow> jstring" where
  "js s = map ch s"

text \<open>
  A JavaScript number other than \<^verbatim>\<open>NaN\<close>: a finite value or one of the two infinities.
  Neither \<^verbatim>\<open>JSON.parse\<close> nor \<^verbatim>\<open>parseInt\<close> on a run of digits gives \<^verbatim>\<open>NaN\<close>; the two zeros
  are one value, as they are for the comparisons of the source.
\<close>

datatype number = Finite rat | PosInfinity | NegInfinity

text \<open>The comparison "greater than" of two numbers.\<close>

fun greater :: "number \<Rightarrow> number \<Rightarrow> bool" where
  "greater (Finite x) (Finite y) = (y < x)"
| "greater (Finite x) NegInfinity = True"
| "greater (Finite x) PosInfinity = False"
| "greater PosInfinity PosInfinity = False"
| "greater PosInfinity (Finite y) = True"
| "greater PosInfinity NegInfinity = True"
| "greater NegInfinity b = False"

text \<open>
  The number of bits of a natural number, and the conversion of a natural number to a
  number: the nearest value with 53 significant bits, the even one of two that are equally
  near, and infinity from \<open>2 ^ 1024\<close> on after rounding (IEEE 754 binary64).
\<close>

fun bitLength :: "nat \<Rightarrow> nat" where
  "bitLength n = (if n = 0 then 0 else Suc (bitLength (n div 2)))"

definition toNumber :: "nat \<Rightarrow> number" where
  "toNumber n =
     (if bitLength n \<le> 53 then Finite (of_nat n)
      else
        (let e = bitLength n - 53;
             q = n div 2 ^ e;
             r = n mod 2 ^ e;
             m = (if 2 ^ (e - 1) < r \<or> (r = 2 ^ (e - 1) \<and> odd q) then q + 1 else q)
         in if 2 ^ 1024 \<le> m * 2 ^ e then PosInfinity else Finite (of_nat (m * 2 ^ e))))"

section \<open>Data model (types.ts)\<close>

text \<open>
  The records follow the interfaces of \<^verbatim>\<open>types.ts\<close>. A JSON object is modelled by its
  own properties, with the fields the parser reads, at the types that \<^verbatim>\<open>types.ts\<close> declares:
  an optional field is an \<open>option\<close>, \<open>None\<close> when the property is absent (for \<open>parentUuid\<close>
  and \<open>backupFileName\<close> also when it is \<^verbatim>\<open>null\<close>). A \<^verbatim>\<open>TrackedFileBackups\<close> object
  and a \<^verbatim>\<open>Map\<close> are association lists in the enumeration order of their keys, which
  are distinct; a \<^verbatim>\<open>Set\<close> of strings that is iterated is a list without repetitions in
  insertion order.
\<close>

record FileBackup =
  backupFileName :: "jstring option"
  version :: number
  backupTime :: "jstring option"

type_synonym TrackedFileBackups = "(jstring \<times> FileBackup) list"

text \<open>
  A \<^verbatim>\<open>TrackedFileBackups\<close> object is a plain object: reading it at a key gives its own
  property of that name or, when it has none, the property of that name that it inherits
  from \<^verbatim>\<open>Object.prototype\<close>. The inherited values are functions (and, for \<^verbatim>\<open>__proto__\<close>,
  the prototype itself): they are truthy and have no property \<^verbatim>\<open>version\<close>.
\<close>

definition objectPrototypeKeys :: "jstring list" where
  "objectPrototypeKeys =
     [js ''constructor'', js ''__defineGetter__'', js ''__defineSetter__'',
      js ''hasOwnProperty'', js ''__lookupGetter__'', js ''__lookupSetter__'',
      js ''isPrototypeOf'', js ''propertyIsEnumerable'', js ''toString'', js ''valueOf'',
      js ''__proto__'', js ''toLocaleString'']"

datatype property = Own FileBackup | Inherited jstring

definition getProperty :: "TrackedFileBackups \<Rightarrow> jstring \<Rightarrow> property option" where
  "getProperty obj key =
     (case map_of obj key of
        Some b \<Rightarrow> Some (Own b)
      | None \<Rightarrow> if key \<in> set objectPrototypeKeys then Some (Inherited key) else None)"

text \<open>\<^verbatim>\<open>value.version\<close>: \<open>None\<close> is \<^verbatim>\<open>undefined\<close>.\<close>

definition versionOf :: "property \<Rightarrow> number option" where
  "versionOf v = (case v of Own b \<Rightarrow> Some (version b) | Inherited k \<Rightarrow> None)"

record content_block =
  blockType :: jstring
  blockName :: "jstring option"

datatype message_content =
  NoContent
  | TextContent jstring
  | BlockContent "content_block list"

record tool_use_result =
  resultFilePath :: "jstring option"
  originalFile :: "jstring option"

text \<open>
  One decoded line of the transcript. \<open>etype\<close> is the \<^verbatim>\<open>type\<close> tag; \<open>content\<close> is
  \<^verbatim>\<open>message.content\<close>; \<open>snapshotMessageId\<close> and \<open>trackedFileBackups\<close> are the payload of
  a \<^verbatim>\<open>file-history-snapshot\<close> entry.
\<close>

record entry =
  etype :: jstring
  uuid :: "jstring option"
  parentUuid :: "jstring option"
  entrySessionId :: "jstring option"
  cwd :: jstring
  timestamp :: jstring
  isMeta :: bool
  content :: message_content
  toolUseResult :: "tool_use_result option"
  snapshotMessageId :: jstring
  trackedFileBackups :: TrackedFileBackups

record ParsedPrompt =
  promptNumber :: nat
  messageId :: jstring
  parentMessageId :: "jstring option"
  promptText :: jstring
  promptTimestamp :: jstring
  beforeSnapshot :: TrackedFileBackups
  afterSnapshot :: TrackedFileBackups
  toolsUsed :: "jstring list"
  editedFiles :: "jstring list"
  originalFileContents :: "(jstring \<times> jstring) list"

record ParsedSession =
  sessionId :: jstring
  projectPath :: jstring
  transcriptPath :: jstring
  prompts :: "ParsedPrompt list"
  lastUpdated :: nat

datatype change_type = Modified | Added | Deleted

record FileChange =
  filePath :: jstring
  changeType :: change_type
  beforeBackup :: "property option"
  afterBackup :: "property option"
  changePromptNumber :: nat
  changePromptText :: jstring
  originalContent :: "jstring option"

text \<open>
  The file system as the parser reads it: the content of a file that exists, the
  state of the backup directory \<^verbatim>\<open>~/.claude/file-history/<sessionId>\<close>, and modification
  times.
\<close>

datatype dir_state = Missing | Unreadable | Listing "jstring list"

record filesystem =
  fileContent :: "jstring \<Rightarrow> jstring option"
  historyDir :: "jstring \<Rightarrow> dir_state"
  mtime :: "jstring \<Rightarrow> nat"

section \<open>JavaScript helpers\<close>

text \<open>A string is truthy when it is present and not empty.\<close>

definition truthy :: "jstring option \<Rightarrow> jstring option" where
  "truthy v = (case v of None \<Rightarrow> None | Some s \<Rightarrow> if s = [] then None else Some s)"

text \<open>\<^verbatim>\<open>a || b\<close> on optional strings.\<close>

definition orElse :: "jstring option \<Rightarrow> jstring option \<Rightarrow> jstring option" where
  "orElse a b = (case truthy a of Some s \<Rightarrow> Some s | None \<Rightarrow> b)"

text \<open>\<^verbatim>\<open>Set.add\<close> on an insertion-ordered set.\<close>

definition setAdd :: "'a list \<Rightarrow> 'a \<Rightarrow> 'a list" where
  "setAdd xs x = (if x \<in> set xs then xs else xs @ [x])"

text \<open>\<^verbatim>\<open>new Set(xs)\<close>: the first occurrence of each element, in order.\<close>

definition newSet :: "'a list \<Rightarrow> 'a list" where
  "newSet xs = foldl setAdd [] xs"

text \<open>
  \<^verbatim>\<open>String.prototype.trim\<close> and \<^verbatim>\<open>split('\n')\<close>. The code units that \<^verbatim>\<open>trim\<close> removes are
  the white space and the line terminators of ECMAScript: tab, line feed, vertical tab,
  form feed, carriage return, space, no-break space, the byte order mark, the line and
  paragraph separators and the other space separators of Unicode.
\<close>

definition isSpace :: "codeunit \<Rightarrow> bool" where
  "isSpace c =
     (c \<in> set [0x09, 0x0A, 0x0B, 0x0C, 0x0D, 0x20, 0xA0, 0x1680, 0x2028, 0x2029, 0x202F,
               0x205F, 0x3000, 0xFEFF]
      \<or> (0x2000 \<le> c \<and> c \<le> 0x200A))"

definition trim :: "jstring \<Rightarrow> jstring" where
  "trim s = rev (dropWhile isSpace (rev (dropWhile isSpace s)))"

fun splitNl :: "jstring \<Rightarrow> jstring list" where
  "splitNl [] = [[]]"
| "splitNl (c # cs) =
     (if c = 0x0A then [] # splitNl cs
      else (case splitNl cs of [] \<Rightarrow> [[c]] | l # ls \<Rightarrow> (c # l) # ls))"

section \<open>Event log loader (parseTranscript, lines 63-74)\<close>

definition logLines :: "jstring \<Rightarrow> jstring list" where
  "logLines text = filter (\<lambda>line. trim line \<noteq> []) (splitNl (trim text))"

text \<open>
  \<open>jsonParse\<close> stands for \<^verbatim>\<open>JSON.parse\<close> followed by the reading of the object as an
  entry: \<open>None\<close> is the exception that the \<^verbatim>\<open>catch\<close> swallows.
\<close>

fun decodeLines :: "(jstring \<Rightarrow> entry option) \<Rightarrow> jstring list \<Rightarrow> entry list" where
  "decodeLines jsonParse [] = []"
| "decodeLines jsonParse (line # rest) =
     (case jsonParse line of
        None \<Rightarrow> decodeLines jsonParse rest
      | Some e \<Rightarrow> e # decodeLines jsonParse rest)"

definition loadEntries :: "(jstring \<Rightarrow> entry option) \<Rightarrow> jstring \<Rightarrow> entry list" where
  "loadEntries jsonParse text = decodeLines jsonParse (logLines text)"

section \<open>Conversation tree resolver (findActiveConversationPath)\<close>

definition getUuid :: "entry \<Rightarrow> jstring option" where
  "getUuid e = truthy (uuid e)"

definition getParentUuid :: "entry \<Rightarrow> jstring option" where
  "getParentUuid e = truthy (parentUuid e)"

text \<open>The \<^verbatim>\<open>Map\<close> from id to entry: a later entry with the same id replaces an earlier one.\<close>

fun entryByUuidFrom :: "(jstring \<rightharpoonup> entry) \<Rightarrow> entry list \<Rightarrow> (jstring \<rightharpoonup> entry)" where
  "entryByUuidFrom m [] = m"
| "entryByUuidFrom m (e # es) =
     (case getUuid e of
        None \<Rightarrow> entryByUuidFrom m es
      | Some u \<Rightarrow> entryByUuidFrom (m(u \<mapsto> e)) es)"

definition entryByUuid :: "entry list \<Rightarrow> (jstring \<rightharpoonup> entry)" where
  "entryByUuid es = entryByUuidFrom Map.empty es"

text \<open>The scan from the tail for the last entry with an id.\<close>

definition lastEntry :: "entry list \<Rightarrow> entry option" where
  "lastEntry es = find (\<lambda>e. getUuid e \<noteq> None) (rev es)"

text \<open>
  The walk along the parent links. It has no bound of its own: on a cycle of parent
  links it never returns, which is the value \<open>None\<close>.
\<close>

partial_function (option) walkActive ::
  "(jstring \<rightharpoonup> entry) \<Rightarrow> jstring set \<Rightarrow> entry option \<Rightarrow> jstring set option" where
  "walkActive byUuid activeUuids current =
     (case current of
        None \<Rightarrow> Some activeUuids
      | Some e \<Rightarrow>
          (case getParentUuid e of
             None \<Rightarrow> Some (case getUuid e of None \<Rightarrow> activeUuids | Some u \<Rightarrow> insert u activeUuids)
           | Some p \<Rightarrow>
               walkActive byUuid
                 (case getUuid e of None \<Rightarrow> activeUuids | Some u \<Rightarrow> insert u activeUuids)
                 (byUuid p)))"

declare walkActive.simps [code]

definition findActiveConversationPath :: "entry list \<Rightarrow> jstring set option" where
  "findActiveConversationPath es =
     (case lastEntry es of
        None \<Rightarrow> Some {}
      | Some e \<Rightarrow> walkActive (entryByUuid es) {} (Some e))"

section \<open>Snapshot correlator (parseTranscript, lines 94-189)\<close>

fun snapshotMapFrom ::
  "(jstring \<rightharpoonup> TrackedFileBackups) \<Rightarrow> entry list \<Rightarrow> (jstring \<rightharpoonup> TrackedFileBackups)" where
  "snapshotMapFrom m [] = m"
| "snapshotMapFrom m (e # es) =
     (if etype e = js ''file-history-snapshot''
      then snapshotMapFrom (m(snapshotMessageId e \<mapsto> trackedFileBackups e)) es
      else snapshotMapFrom m es)"

definition snapshotMap :: "entry list \<Rightarrow> (jstring \<rightharpoonup> TrackedFileBackups)" where
  "snapshotMap es = snapshotMapFrom Map.empty es"

fun latestSnapshotFrom :: "TrackedFileBackups \<Rightarrow> entry list \<Rightarrow> TrackedFileBackups" where
  "latestSnapshotFrom latest [] = latest"
| "latestSnapshotFrom latest (e # es) =
     (if etype e = js ''file-history-snapshot''
      then latestSnapshotFrom (trackedFileBackups e) es
      else latestSnapshotFrom latest es)"

definition latestSnapshot :: "entry list \<Rightarrow> TrackedFileBackups" where
  "latestSnapshot es = latestSnapshotFrom [] es"

text \<open>\<^verbatim>\<open>entries.find(e => 'uuid' in e && e.uuid === rootId)\<close>: the first entry with that id.\<close>

definition findByUuid :: "entry list \<Rightarrow> jstring option \<Rightarrow> entry option" where
  "findByUuid es rootId =
     (case rootId of None \<Rightarrow> None | Some r \<Rightarrow> find (\<lambda>e. uuid e = Some r) es)"

definition isPlainText :: "entry \<Rightarrow> bool" where
  "isPlainText e = (case content e of TextContent t \<Rightarrow> True | _ \<Rightarrow> False)"

text \<open>
  The walk of lines 129-134, from an assistant entry's parent to "the root user message".
  The result is the final \<open>rootId\<close>; the walk does not return when it meets an entry that
  is not a user entry and has no parent, or a cycle of such entries.
\<close>

partial_function (option) toolRootWalk ::
  "entry list \<Rightarrow> jstring option \<Rightarrow> entry option \<Rightarrow> jstring option option" where
  "toolRootWalk es rootId current =
     (case current of
        None \<Rightarrow> Some rootId
      | Some c \<Rightarrow>
          if etype c = js ''user'' then Some rootId
          else (case truthy (parentUuid c) of
                  Some p \<Rightarrow> toolRootWalk es (Some p) (findByUuid es (Some p))
                | None \<Rightarrow> toolRootWalk es rootId (findByUuid es rootId)))"

declare toolRootWalk.simps [code]

text \<open>The walk of lines 156-162, from a tool result to its plain-text user entry.\<close>

partial_function (option) editRootWalk ::
  "entry list \<Rightarrow> jstring option \<Rightarrow> entry option \<Rightarrow> jstring option option" where
  "editRootWalk es rootId current =
     (case current of
        None \<Rightarrow> Some rootId
      | Some c \<Rightarrow>
          if etype c = js ''user'' \<and> isPlainText c then Some rootId
          else (case truthy (parentUuid c) of
                  None \<Rightarrow> Some None
                | Some p \<Rightarrow> editRootWalk es (Some p) (findByUuid es (Some p))))"

declare editRootWalk.simps [code]

record attribution =
  toolsPerPrompt :: "jstring \<rightharpoonup> jstring list"
  editedFilesPerPrompt :: "jstring \<rightharpoonup> jstring list"
  originalContentsPerPrompt :: "jstring \<rightharpoonup> (jstring \<times> jstring) list"

definition emptyAttribution :: attribution where
  "emptyAttribution =
     \<lparr>toolsPerPrompt = Map.empty, editedFilesPerPrompt = Map.empty,
      originalContentsPerPrompt = Map.empty\<rparr>"

definition getOr :: "('k \<rightharpoonup> 'v list) \<Rightarrow> 'k \<Rightarrow> 'v list" where
  "getOr m k = (case m k of None \<Rightarrow> [] | Some v \<Rightarrow> v)"

definition recordTool :: "attribution \<Rightarrow> jstring \<Rightarrow> jstring \<Rightarrow> attribution" where
  "recordTool st rootId name =
     st\<lparr>toolsPerPrompt :=
          (toolsPerPrompt st)(rootId \<mapsto> setAdd (getOr (toolsPerPrompt st) rootId) name)\<rparr>"

text \<open>The loop over the content blocks of one assistant entry (lines 126-143).\<close>

fun toolBlocks ::
  "entry list \<Rightarrow> jstring option \<Rightarrow> attribution \<Rightarrow> content_block list \<Rightarrow> attribution option" where
  "toolBlocks es parentId st [] = Some st"
| "toolBlocks es parentId st (b # bs) =
     (if blockType b = js ''tool_use'' then
        (case truthy (blockName b) of
           None \<Rightarrow> toolBlocks es parentId st bs
         | Some name \<Rightarrow>
             (case toolRootWalk es parentId (findByUuid es parentId) of
                None \<Rightarrow> None
              | Some rootId \<Rightarrow>
                  (case truthy rootId of
                     None \<Rightarrow> toolBlocks es parentId st bs
                   | Some r \<Rightarrow> toolBlocks es parentId (recordTool st r name) bs)))
      else toolBlocks es parentId st bs)"

definition toolAttribution :: "entry list \<Rightarrow> attribution \<Rightarrow> entry \<Rightarrow> attribution option" where
  "toolAttribution es st e =
     (if etype e = js ''assistant'' then
        (case content e of
           BlockContent bs \<Rightarrow> toolBlocks es (parentUuid e) st bs
         | _ \<Rightarrow> Some st)
      else Some st)"

definition recordEdit ::
  "attribution \<Rightarrow> jstring \<Rightarrow> jstring \<Rightarrow> jstring option \<Rightarrow> attribution" where
  "recordEdit st rootId path original =
     (let st1 = st\<lparr>editedFilesPerPrompt :=
                   (editedFilesPerPrompt st)
                     (rootId \<mapsto> setAdd (getOr (editedFilesPerPrompt st) rootId) path)\<rparr>
      in case original of
           None \<Rightarrow> st1
         | Some text \<Rightarrow>
             (let promptOriginals = getOr (originalContentsPerPrompt st1) rootId
              in if path \<in> fst ` set promptOriginals then st1
                 else st1\<lparr>originalContentsPerPrompt :=
                        (originalContentsPerPrompt st1)
                          (rootId \<mapsto> promptOriginals @ [(path, text)])\<rparr>))"

definition editAttribution :: "entry list \<Rightarrow> attribution \<Rightarrow> entry \<Rightarrow> attribution option" where
  "editAttribution es st e =
     (if etype e = js ''user'' then
        (case toolUseResult e of
           None \<Rightarrow> Some st
         | Some tr \<Rightarrow>
             (case truthy (resultFilePath tr) of
                None \<Rightarrow> Some st
              | Some path \<Rightarrow>
                  (case editRootWalk es (parentUuid e) (findByUuid es (parentUuid e)) of
                     None \<Rightarrow> None
                   | Some rootId \<Rightarrow>
                       (case truthy rootId of
                          None \<Rightarrow> Some st
                        | Some r \<Rightarrow> Some (recordEdit st r path (originalFile tr))))))
      else Some st)"

text \<open>The first pass (lines 120-189): both attributions, entry by entry.\<close>

fun firstPassFrom :: "entry list \<Rightarrow> attribution \<Rightarrow> entry list \<Rightarrow> attribution option" where
  "firstPassFrom es st [] = Some st"
| "firstPassFrom es st (e # rest) =
     (case toolAttribution es st e of
        None \<Rightarrow> None
      | Some st1 \<Rightarrow>
          (case editAttribution es st1 e of
             None \<Rightarrow> None
           | Some st2 \<Rightarrow> firstPassFrom es st2 rest))"

definition firstPass :: "entry list \<Rightarrow> attribution option" where
  "firstPass es = firstPassFrom es emptyAttribution es"

section \<open>Backup store reconciler (getLatestSnapshotFromDisk)\<close>

text \<open>
  The class \<^verbatim>\<open>\d\<close> is the ten ASCII digits. The dot of a regular expression without flags
  matches every code unit but the four line terminators: line feed, carriage return, line
  separator and paragraph separator.
\<close>

definition isDigit :: "codeunit \<Rightarrow> bool" where
  "isDigit c = (0x30 \<le> c \<and> c \<le> 0x39)"

definition isLineTerminator :: "codeunit \<Rightarrow> bool" where
  "isLineTerminator c = (c = 0x0A \<or> c = 0x0D \<or> c = 0x2028 \<or> c = 0x2029)"

text \<open>
  \<^verbatim>\<open>parseInt(digits, 10)\<close> on a string of decimal digits: the number nearest to the decimal
  value of the digits.
\<close>

definition decimalValue :: "jstring \<Rightarrow> nat" where
  "decimalValue ds = foldl (\<lambda>n c. 10 * n + (unat c - 48)) 0 ds"

definition parseInt :: "jstring \<Rightarrow> number" where
  "parseInt ds = toNumber (decimalValue ds)"

text \<open>
  The regular expression \<^verbatim>\<open>/^(.+)@v(\d+)$/\<close>: the name ends with a non-empty run of
  digits, preceded by \<^verbatim>\<open>@v\<close>, preceded by at least one character, none of them a line
  terminator. The digits of a match are the whole run of digits at the end of the name
  (the character before them is \<^verbatim>\<open>v\<close>), so the match is unique; the result is the pair
  of the two groups.
\<close>

definition matchBackupName :: "jstring \<Rightarrow> (jstring \<times> jstring) option" where
  "matchBackupName name =
     (case dropWhile isDigit (rev name) of
        c1 # c2 # h \<Rightarrow>
          if c1 = ch (CHR ''v'') \<and> c2 = ch (CHR ''@'') \<and> takeWhile isDigit (rev name) \<noteq> [] \<and> h \<noteq> []
             \<and> list_all (\<lambda>c. \<not> isLineTerminator c) h
          then Some (rev h, rev (takeWhile isDigit (rev name)))
          else None
      | _ \<Rightarrow> None)"

text \<open>The grouping of the directory's files by hash (lines 454-467).\<close>

fun filesByHashFrom ::
  "(jstring \<rightharpoonup> (number \<times> jstring) list) \<Rightarrow> jstring list \<Rightarrow> (jstring \<rightharpoonup> (number \<times> jstring) list)" where
  "filesByHashFrom m [] = m"
| "filesByHashFrom m (file # files) =
     (case matchBackupName file of
        None \<Rightarrow> filesByHashFrom m files
      | Some (hash, digits) \<Rightarrow>
          filesByHashFrom (m(hash \<mapsto> getOr m hash @ [(parseInt digits, file)])) files)"

definition filesByHash :: "jstring list \<Rightarrow> (jstring \<rightharpoonup> (number \<times> jstring) list)" where
  "filesByHash files = filesByHashFrom Map.empty files"

text \<open>\<^verbatim>\<open>versions.reduce((max, curr) => curr.version > max.version ? curr : max)\<close>.\<close>

definition latestVersion :: "(number \<times> jstring) \<Rightarrow> (number \<times> jstring) list \<Rightarrow> (number \<times> jstring)" where
  "latestVersion v vs = foldl (\<lambda>mx curr. if greater (fst curr) (fst mx) then curr else mx) v vs"

text \<open>\<^verbatim>\<open>hashMatch[0].split('@')[0]\<close>: the recorded name up to its first \<^verbatim>\<open>@\<close>.\<close>

definition recordedHash :: "jstring \<Rightarrow> jstring" where
  "recordedHash name = takeWhile (\<lambda>c. c \<noteq> ch (CHR ''@'')) name"

text \<open>The body of the loop over the base snapshot (lines 470-496).\<close>

definition reconcileEntry ::
  "(jstring \<rightharpoonup> (number \<times> jstring) list) \<Rightarrow> jstring \<times> FileBackup \<Rightarrow> jstring \<times> FileBackup" where
  "reconcileEntry byHash kv =
     (case truthy (backupFileName (snd kv)) of
        None \<Rightarrow> kv
      | Some name \<Rightarrow>
          (case matchBackupName name of
             None \<Rightarrow> kv
           | Some groups \<Rightarrow>
               (case byHash (recordedHash name) of
                  None \<Rightarrow> kv
                | Some [] \<Rightarrow> kv
                | Some (v # vs) \<Rightarrow>
                    if greater (fst (latestVersion v vs)) (version (snd kv))
                    then (fst kv, (snd kv)\<lparr>backupFileName := Some (snd (latestVersion v vs)),
                                           version := fst (latestVersion v vs)\<rparr>)
                    else kv)))"

definition getLatestSnapshotFromDisk ::
  "filesystem \<Rightarrow> jstring \<Rightarrow> TrackedFileBackups \<Rightarrow> TrackedFileBackups" where
  "getLatestSnapshotFromDisk fs sid baseSnapshot =
     (case historyDir fs sid of
        Missing \<Rightarrow> baseSnapshot
      | Unreadable \<Rightarrow> baseSnapshot
      | Listing files \<Rightarrow> map (reconcileEntry (filesByHash files)) baseSnapshot)"

section \<open>Session assembler (parseTranscript, lines 76-262)\<close>

definition newPrompt ::
  "(jstring \<rightharpoonup> TrackedFileBackups) \<Rightarrow> attribution \<Rightarrow> nat \<Rightarrow> jstring \<Rightarrow> jstring \<Rightarrow> entry
     \<Rightarrow> ParsedPrompt" where
  "newPrompt snaps st n u t e =
     \<lparr>promptNumber = n, messageId = u, parentMessageId = parentUuid e, promptText = t,
      promptTimestamp = timestamp e, beforeSnapshot = getOr snaps u, afterSnapshot = [],
      toolsUsed = getOr (toolsPerPrompt st) u,
      editedFiles = getOr (editedFilesPerPrompt st) u,
      originalFileContents = getOr (originalContentsPerPrompt st) u\<rparr>"

text \<open>
  The second pass (lines 196-236); \<open>n\<close> is the counter \<^verbatim>\<open>promptNumber\<close> and \<open>ps\<close> the
  prompts pushed so far.
\<close>

fun secondPassFrom ::
  "jstring set \<Rightarrow> (jstring \<rightharpoonup> TrackedFileBackups) \<Rightarrow> attribution \<Rightarrow> nat \<Rightarrow> ParsedPrompt list
     \<Rightarrow> entry list \<Rightarrow> ParsedPrompt list" where
  "secondPassFrom activeUuids snaps st n ps [] = ps"
| "secondPassFrom activeUuids snaps st n ps (e # es) =
     (if etype e = js ''user'' then
        (case content e of
           TextContent t \<Rightarrow>
             if isMeta e then secondPassFrom activeUuids snaps st n ps es
             else (case uuid e of
                     None \<Rightarrow> secondPassFrom activeUuids snaps st n ps es
                   | Some u \<Rightarrow>
                       if u \<notin> activeUuids then secondPassFrom activeUuids snaps st n ps es
                       else secondPassFrom activeUuids snaps st (Suc n)
                              (ps @ [newPrompt snaps st (Suc n) u t e]) es)
         | _ \<Rightarrow> secondPassFrom activeUuids snaps st n ps es)
      else secondPassFrom activeUuids snaps st n ps es)"

definition secondPass ::
  "jstring set \<Rightarrow> (jstring \<rightharpoonup> TrackedFileBackups) \<Rightarrow> attribution \<Rightarrow> entry list
     \<Rightarrow> ParsedPrompt list" where
  "secondPass activeUuids snaps st es = secondPassFrom activeUuids snaps st 0 [] es"

text \<open>
  The third pass (lines 240-250): iteration \<open>i\<close> assigns \<^verbatim>\<open>prompts[i].afterSnapshot\<close>.
  \<open>latestFromDisk\<close> is the reconciled snapshot, which the loop asks for at the last prompt.
\<close>

definition linkStep :: "TrackedFileBackups \<Rightarrow> ParsedPrompt list \<Rightarrow> nat \<Rightarrow> ParsedPrompt list" where
  "linkStep latestFromDisk ps i =
     (if i < length ps - 1
      then ps[i := (ps ! i)\<lparr>afterSnapshot := beforeSnapshot (ps ! (i + 1))\<rparr>]
      else ps[i := (ps ! i)\<lparr>afterSnapshot := latestFromDisk\<rparr>])"

definition thirdPassUpTo ::
  "nat \<Rightarrow> TrackedFileBackups \<Rightarrow> ParsedPrompt list \<Rightarrow> ParsedPrompt list" where
  "thirdPassUpTo k latestFromDisk ps = foldl (linkStep latestFromDisk) ps [0..<k]"

definition thirdPass :: "TrackedFileBackups \<Rightarrow> ParsedPrompt list \<Rightarrow> ParsedPrompt list" where
  "thirdPass latestFromDisk ps = thirdPassUpTo (length ps) latestFromDisk ps"

text \<open>The session metadata, from the first user entry that has a session id (lines 81-87).\<close>

definition firstUser :: "entry list \<Rightarrow> entry option" where
  "firstUser es = find (\<lambda>e. etype e = js ''user'' \<and> entrySessionId e \<noteq> None) es"

definition sessionIdOf :: "entry list \<Rightarrow> jstring" where
  "sessionIdOf es =
     (case firstUser es of
        None \<Rightarrow> []
      | Some e \<Rightarrow> (case entrySessionId e of None \<Rightarrow> [] | Some sid \<Rightarrow> sid))"

definition projectPathOf :: "entry list \<Rightarrow> jstring" where
  "projectPathOf es = (case firstUser es of None \<Rightarrow> [] | Some e \<Rightarrow> cwd e)"

text \<open>
  \<open>assembleSession\<close> is \<open>parseTranscript\<close> from line 76 on, given the decoded entries. The
  outer \<open>option\<close> is \<open>None\<close> when one of the walks does not return; the inner one is the
  \<^verbatim>\<open>null\<close> of the source.
\<close>

definition assembleSession ::
  "filesystem \<Rightarrow> jstring \<Rightarrow> entry list \<Rightarrow> ParsedSession option option" where
  "assembleSession fs path es =
     (if es = [] then Some None
      else
        (case findActiveConversationPath es of
           None \<Rightarrow> None
         | Some activeUuids \<Rightarrow>
             (case firstPass es of
                None \<Rightarrow> None
              | Some st \<Rightarrow>
                  Some (Some
                    \<lparr>sessionId = sessionIdOf es,
                     projectPath = projectPathOf es,
                     transcriptPath = path,
                     prompts =
                       thirdPass
                         (getLatestSnapshotFromDisk fs (sessionIdOf es) (latestSnapshot es))
                         (secondPass activeUuids (snapshotMap es) st es),
                     lastUpdated = mtime fs path\<rparr>))))"

definition parseTranscript ::
  "(jstring \<Rightarrow> entry option) \<Rightarrow> filesystem \<Rightarrow> jstring \<Rightarrow> ParsedSession option option" where
  "parseTranscript jsonParse fs path =
     (case fileContent fs path of
        None \<Rightarrow> Some None
      | Some text \<Rightarrow> assembleSession fs path (loadEntries jsonParse text))"

section \<open>Change-set deriver (getFileChangesForPrompt)\<close>

text \<open>
  The functions of Node's \<^verbatim>\<open>path\<close> module that the deriver calls are a parameter: they
  are not code of this repository.
\<close>

record path_ops =
  normalize :: "jstring \<Rightarrow> jstring"
  basename :: "jstring \<Rightarrow> jstring"
  isAbsolute :: "jstring \<Rightarrow> bool"
  joinPath :: "jstring \<Rightarrow> jstring \<Rightarrow> jstring"

definition toAbsolutePath :: "path_ops \<Rightarrow> jstring option \<Rightarrow> jstring \<Rightarrow> jstring" where
  "toAbsolutePath P project p =
     (if isAbsolute P p then normalize P p
      else (case truthy project of Some r \<Rightarrow> joinPath P r p | None \<Rightarrow> p))"

definition allFiles :: "path_ops \<Rightarrow> ParsedPrompt \<Rightarrow> jstring list" where
  "allFiles P prompt =
     newSet (map (\<lambda>kv. normalize P (fst kv)) (beforeSnapshot prompt)
             @ map (\<lambda>kv. normalize P (fst kv)) (afterSnapshot prompt))"

text \<open>\<^verbatim>\<open>snapshot[filePath] || Object.entries(snapshot).find(([k]) => normalize(k) === filePath)?.[1]\<close>\<close>

definition findBackup :: "path_ops \<Rightarrow> TrackedFileBackups \<Rightarrow> jstring \<Rightarrow> property option" where
  "findBackup P snapshot fp =
     (case getProperty snapshot fp of
        Some v \<Rightarrow> Some v
      | None \<Rightarrow>
          map_option (\<lambda>kv. Own (snd kv)) (find (\<lambda>kv. normalize P (fst kv) = fp) snapshot))"

text \<open>
  \<^verbatim>\<open>originals.get(p1) || originals.get(p2) || Array.from(originals.entries()).find(([k]) =>
  normalize(k) === n || basename(k) === b)?.[1]\<close>
\<close>

definition findOriginal ::
  "path_ops \<Rightarrow> (jstring \<times> jstring) list \<Rightarrow> jstring \<Rightarrow> jstring \<Rightarrow> jstring \<Rightarrow> jstring \<Rightarrow> jstring option" where
  "findOriginal P originals p1 p2 n b =
     orElse (map_of originals p1)
       (orElse (map_of originals p2)
          (map_option snd
             (find (\<lambda>kv. normalize P (fst kv) = n \<or> basename P (fst kv) = b) originals)))"

text \<open>The body of the loop over the candidates (lines 295-376): the change pushed, if any.\<close>

definition snapshotChange ::
  "path_ops \<Rightarrow> jstring option \<Rightarrow> ParsedPrompt \<Rightarrow> jstring \<Rightarrow> FileChange option" where
  "snapshotChange P project prompt fp =
     (case findBackup P (beforeSnapshot prompt) fp of
        None \<Rightarrow>
          (case findBackup P (afterSnapshot prompt) fp of
             None \<Rightarrow> None
           | Some a \<Rightarrow>
               (case findOriginal P (originalFileContents prompt) fp (toAbsolutePath P project fp)
                       fp (basename P fp) of
                  Some text \<Rightarrow>
                    Some \<lparr>filePath = toAbsolutePath P project fp, changeType = Modified,
                          beforeBackup = None, afterBackup = None,
                          changePromptNumber = promptNumber prompt,
                          changePromptText = promptText prompt,
                          originalContent = Some text\<rparr>
                | None \<Rightarrow>
                    Some \<lparr>filePath = toAbsolutePath P project fp, changeType = Added,
                          beforeBackup = None, afterBackup = None,
                          changePromptNumber = promptNumber prompt,
                          changePromptText = promptText prompt,
                          originalContent = None\<rparr>))
      | Some b \<Rightarrow>
          (case findBackup P (afterSnapshot prompt) fp of
             None \<Rightarrow>
               Some \<lparr>filePath = toAbsolutePath P project fp, changeType = Deleted,
                     beforeBackup = Some b, afterBackup = None,
                     changePromptNumber = promptNumber prompt,
                     changePromptText = promptText prompt,
                     originalContent = None\<rparr>
           | Some a \<Rightarrow>
               if versionOf b = versionOf a then None
               else
                 Some \<lparr>filePath = toAbsolutePath P project fp, changeType = Modified,
                       beforeBackup = Some b, afterBackup = Some a,
                       changePromptNumber = promptNumber prompt,
                       changePromptText = promptText prompt,
                       originalContent = None\<rparr>))"

text \<open>The loop itself; the state is the pair of \<^verbatim>\<open>changes\<close> and \<^verbatim>\<open>detectedFiles\<close>.\<close>

fun snapshotPass ::
  "path_ops \<Rightarrow> jstring option \<Rightarrow> ParsedPrompt \<Rightarrow> jstring list \<Rightarrow> FileChange list \<times> jstring set
     \<Rightarrow> FileChange list \<times> jstring set" where
  "snapshotPass P project prompt [] acc = acc"
| "snapshotPass P project prompt (fp # fps) acc =
     (case snapshotChange P project prompt fp of
        None \<Rightarrow> snapshotPass P project prompt fps acc
      | Some c \<Rightarrow>
          snapshotPass P project prompt fps
            (fst acc @ [c], insert (basename P fp) (insert (toAbsolutePath P project fp)
               (insert fp (snd acc)))))"

text \<open>
  \<^verbatim>\<open>before[editedFile] || before[editedBasename] || Object.entries(before).find(([k]) =>
  normalize(k) === normalizedEditedFile || basename(k) === editedBasename)?.[1]\<close>
\<close>

definition findEditedBackup ::
  "path_ops \<Rightarrow> TrackedFileBackups \<Rightarrow> jstring \<Rightarrow> property option" where
  "findEditedBackup P snapshot editedFile =
     (case getProperty snapshot editedFile of
        Some v \<Rightarrow> Some v
      | None \<Rightarrow>
          (case getProperty snapshot (basename P editedFile) of
             Some v \<Rightarrow> Some v
           | None \<Rightarrow>
               map_option (\<lambda>kv. Own (snd kv))
                 (find (\<lambda>kv. normalize P (fst kv) = normalize P editedFile
                            \<or> basename P (fst kv) = basename P editedFile) snapshot)))"

text \<open>The change of lines 399-407 for one edited file.\<close>

definition editedChange :: "path_ops \<Rightarrow> ParsedPrompt \<Rightarrow> jstring \<Rightarrow> FileChange" where
  "editedChange P prompt editedFile =
     (case findEditedBackup P (beforeSnapshot prompt) editedFile of
        Some b \<Rightarrow>
          \<lparr>filePath = normalize P editedFile, changeType = Modified,
           beforeBackup = Some b, afterBackup = None,
           changePromptNumber = promptNumber prompt,
           changePromptText = promptText prompt,
           originalContent = None\<rparr>
      | None \<Rightarrow>
          (case findOriginal P (originalFileContents prompt) editedFile
                  (normalize P editedFile) (normalize P editedFile) (basename P editedFile) of
             Some text \<Rightarrow>
               \<lparr>filePath = normalize P editedFile, changeType = Modified,
                beforeBackup = None, afterBackup = None,
                changePromptNumber = promptNumber prompt,
                changePromptText = promptText prompt,
                originalContent = Some text\<rparr>
           | None \<Rightarrow>
               \<lparr>filePath = normalize P editedFile, changeType = Added,
                beforeBackup = None, afterBackup = None,
                changePromptNumber = promptNumber prompt,
                changePromptText = promptText prompt,
                originalContent = None\<rparr>))"

text \<open>The loop over the edited files (lines 380-411).\<close>

fun editedPass ::
  "path_ops \<Rightarrow> ParsedPrompt \<Rightarrow> jstring list \<Rightarrow> FileChange list \<times> jstring set
     \<Rightarrow> FileChange list \<times> jstring set" where
  "editedPass P prompt [] acc = acc"
| "editedPass P prompt (f # fs) acc =
     (if normalize P f \<in> snd acc then editedPass P prompt fs acc
      else if basename P f \<in> snd acc then editedPass P prompt fs acc
      else editedPass P prompt fs
             (fst acc @ [editedChange P prompt f],
              insert (basename P f) (insert (normalize P f) (snd acc))))"

definition snapshotStep ::
  "path_ops \<Rightarrow> jstring option \<Rightarrow> ParsedPrompt \<Rightarrow> FileChange list \<times> jstring set" where
  "snapshotStep P project prompt = snapshotPass P project prompt (allFiles P prompt) ([], {})"

definition getFileChangesForPrompt ::
  "path_ops \<Rightarrow> ParsedPrompt \<Rightarrow> jstring option \<Rightarrow> FileChange list" where
  "getFileChangesForPrompt P prompt project =
     fst (editedPass P prompt (editedFiles prompt) (snapshotStep P project prompt))"

section \<open>Path functions for the evaluations\<close>

text \<open>
  Node's \<^verbatim>\<open>path.posix\<close> functions \<^verbatim>\<open>normalize\<close>, \<^verbatim>\<open>basename\<close>, \<^verbatim>\<open>isAbsolute\<close> and \<^verbatim>\<open>join\<close>,
  written from their documentation: a path is cut at its slashes, empty segments and
  \<^verbatim>\<open>.\<close> are dropped, \<^verbatim>\<open>..\<close> removes the segment before it (and is kept in front of a
  relative path), a trailing slash is kept. They are the instance of \<open>path_ops\<close> at which
  the concrete prompts below are evaluated; the theorems hold for every \<open>path_ops\<close>.
\<close>

fun splitSlash :: "jstring \<Rightarrow> jstring list" where
  "splitSlash [] = [[]]"
| "splitSlash (c # cs) =
     (if c = ch (CHR ''/'') then [] # splitSlash cs
      else (case splitSlash cs of [] \<Rightarrow> [[c]] | s # ss \<Rightarrow> (c # s) # ss))"

fun joinSlash :: "jstring list \<Rightarrow> jstring" where
  "joinSlash [] = []"
| "joinSlash [s] = s"
| "joinSlash (s # ss) = s @ ch (CHR ''/'') # joinSlash ss"

fun normalizeSegments :: "bool \<Rightarrow> jstring list \<Rightarrow> jstring list \<Rightarrow> jstring list" where
  "normalizeSegments absolute stack [] = rev stack"
| "normalizeSegments absolute stack (s # ss) =
     (if s = [] \<or> s = js ''.'' then normalizeSegments absolute stack ss
      else if s = js ''..'' then
        (case stack of
           [] \<Rightarrow> if absolute then normalizeSegments absolute [] ss
                else normalizeSegments absolute [js ''..''] ss
         | t # ts \<Rightarrow> if t = js ''..'' then normalizeSegments absolute (js ''..'' # stack) ss
                    else normalizeSegments absolute ts ss)
      else normalizeSegments absolute (s # stack) ss)"

definition posixIsAbsolute :: "jstring \<Rightarrow> bool" where
  "posixIsAbsolute p = (case p of [] \<Rightarrow> False | c # cs \<Rightarrow> c = ch (CHR ''/''))"

definition posixNormalize :: "jstring \<Rightarrow> jstring" where
  "posixNormalize p =
     (if p = [] then js ''.''
      else if joinSlash (normalizeSegments (posixIsAbsolute p) [] (splitSlash p)) = []
      then (if posixIsAbsolute p then js ''/'' else if last p = ch (CHR ''/'') then js ''./'' else js ''.'')
      else (if posixIsAbsolute p then js ''/'' else [])
           @ joinSlash (normalizeSegments (posixIsAbsolute p) [] (splitSlash p))
           @ (if last p = ch (CHR ''/'') then js ''/'' else []))"

definition posixBasename :: "jstring \<Rightarrow> jstring" where
  "posixBasename p =
     (case rev (filter (\<lambda>s. s \<noteq> []) (splitSlash p)) of [] \<Rightarrow> [] | s # ss \<Rightarrow> s)"

definition posixJoin :: "jstring \<Rightarrow> jstring \<Rightarrow> jstring" where
  "posixJoin a b =
     posixNormalize (if a = [] then b else if b = [] then a else a @ ch (CHR ''/'') # b)"

definition posixPath :: path_ops where
  "posixPath =
     \<lparr>normalize = posixNormalize, basename = posixBasename, isAbsolute = posixIsAbsolute,
      joinPath = posixJoin\<rparr>"

section \<open>Notions of the specification\<close>

text \<open>
  A plain-text, non-meta user event whose id is in the active-id set, and the text of a
  plain-text event.
\<close>

definition isPromptEvent :: "jstring set \<Rightarrow> entry \<Rightarrow> bool" where
  "isPromptEvent A e =
     (etype e = js ''user'' \<and> isPlainText e \<and> \<not> isMeta e
      \<and> (case uuid e of None \<Rightarrow> False | Some u \<Rightarrow> u \<in> A))"


text \<open>
  Two conditions on a log under which every walk of the parser returns. In a causal log
  the parent id of an entry names no entry at or after it (parents are appended before
  their children). In a parented log every entry that has an id and is not a user entry
  has a parent id.
\<close>

fun causal :: "entry list \<Rightarrow> bool" where
  "causal [] = True"
| "causal (e # es) =
     ((case truthy (parentUuid e) of
         None \<Rightarrow> True
       | Some p \<Rightarrow> Some p \<notin> set (map uuid (e # es)))
      \<and> causal es)"

definition parented :: "entry list \<Rightarrow> bool" where
  "parented es =
     list_all (\<lambda>e. etype e = js ''user'' \<or> uuid e = None \<or> truthy (parentUuid e) \<noteq> None) es"



definition mkChange ::
  "jstring \<Rightarrow> ParsedPrompt \<Rightarrow> change_type \<Rightarrow> property option \<Rightarrow> property option
     \<Rightarrow> jstring option \<Rightarrow> FileChange" where
  "mkChange path prompt ty before after original =
     \<lparr>filePath = path, changeType = ty, beforeBackup = before, afterBackup = after,
      changePromptNumber = promptNumber prompt, changePromptText = promptText prompt,
      originalContent = original\<rparr>"






section \<open>Example transcripts\<close>

text \<open>
  Concrete inputs for the evaluations below. A line of a transcript is named by a short
  string, and the decoder is the table that gives each line its entry.
\<close>

definition blankEntry :: entry where
  "blankEntry =
     \<lparr>etype = [], uuid = None, parentUuid = None, entrySessionId = None, cwd = [],
      timestamp = [], isMeta = False, content = NoContent, toolUseResult = None,
      snapshotMessageId = [], trackedFileBackups = []\<rparr>"

definition userText :: "jstring option \<Rightarrow> jstring option \<Rightarrow> jstring \<Rightarrow> entry" where
  "userText u p t =
     blankEntry\<lparr>etype := js ''user'', uuid := u, parentUuid := p, content := TextContent t\<rparr>"

definition assistantTool :: "jstring \<Rightarrow> jstring \<Rightarrow> jstring \<Rightarrow> entry" where
  "assistantTool u p name =
     blankEntry\<lparr>etype := js ''assistant'', uuid := Some u, parentUuid := Some p,
       content := BlockContent [\<lparr>blockType = js ''tool_use'', blockName = Some name\<rparr>]\<rparr>"

definition toolResult :: "jstring \<Rightarrow> jstring \<Rightarrow> entry" where
  "toolResult u p =
     blankEntry\<lparr>etype := js ''user'', uuid := Some u, parentUuid := Some p,
       content := BlockContent [\<lparr>blockType = js ''tool_result'', blockName = None\<rparr>]\<rparr>"

definition diskWith :: "jstring \<Rightarrow> jstring \<Rightarrow> filesystem" where
  "diskWith path text =
     \<lparr>fileContent = (\<lambda>p. if p = path then Some text else None),
      historyDir = (\<lambda>sid. Missing), mtime = (\<lambda>p. 0)\<rparr>"

text \<open>A transcript of one line: a plain-text user entry that carries no id.\<close>

definition noIdTable :: "(jstring \<times> entry) list" where
  "noIdTable = [(js ''hello'', userText None None (js ''hello''))]"

text \<open>
  A prompt \<open>U1\<close>, answered by a first tool call (\<open>A1\<close>), its result (\<open>T1\<close>, a user entry
  whose content is a list of blocks) and a second tool call (\<open>A2\<close>) that follows the
  result.
\<close>

definition toolChainLog :: "entry list" where
  "toolChainLog =
     [userText (Some (js ''U1'')) None (js ''fix it''),
      assistantTool (js ''A1'') (js ''U1'') (js ''Read''),
      toolResult (js ''T1'') (js ''A1''),
      assistantTool (js ''A2'') (js ''T1'') (js ''Edit'')]"

text \<open>
  Ten well-formed lines, each a plain-text user entry whose parent is the entry of the
  line before; no other line is in the decoder's table, so any other line is malformed.
\<close>

definition tenTable :: "(jstring \<times> entry) list" where
  "tenTable =
     [(js ''l0'', userText (Some (js ''l0'')) None (js ''ask'')),
      (js ''l1'', userText (Some (js ''l1'')) (Some (js ''l0'')) (js ''ask'')),
      (js ''l2'', userText (Some (js ''l2'')) (Some (js ''l1'')) (js ''ask'')),
      (js ''l3'', userText (Some (js ''l3'')) (Some (js ''l2'')) (js ''ask'')),
      (js ''l4'', userText (Some (js ''l4'')) (Some (js ''l3'')) (js ''ask'')),
      (js ''l5'', userText (Some (js ''l5'')) (Some (js ''l4'')) (js ''ask'')),
      (js ''l6'', userText (Some (js ''l6'')) (Some (js ''l5'')) (js ''ask'')),
      (js ''l7'', userText (Some (js ''l7'')) (Some (js ''l6'')) (js ''ask'')),
      (js ''l8'', userText (Some (js ''l8'')) (Some (js ''l7'')) (js ''ask'')),
      (js ''l9'', userText (Some (js ''l9'')) (Some (js ''l8'')) (js ''ask''))]"

definition firstFive :: jstring where
  "firstFive = js ''l0'' @ 0x0A # js ''l1'' @ 0x0A # js ''l2'' @ 0x0A # js ''l3'' @ 0x0A # js ''l4''"

definition lastFive :: jstring where
  "lastFive = js ''l5'' @ 0x0A # js ''l6'' @ 0x0A # js ''l7'' @ 0x0A # js ''l8'' @ 0x0A # js ''l9''"




text \<open>
  A conversation \<open>A\<close>, \<open>B\<close>, \<open>C\<close>, \<open>D\<close> with a rewound branch \<open>B2\<close> parented at \<open>A\<close>; the
  last line is a snapshot entry, which carries no id.
\<close>

definition rewindLog :: "entry list" where
  "rewindLog =
     [userText (Some (js ''A'')) None (js ''first''),
      userText (Some (js ''B'')) (Some (js ''A'')) (js ''second''),
      userText (Some (js ''B2'')) (Some (js ''A'')) (js ''second, rewound''),
      userText (Some (js ''C'')) (Some (js ''B'')) (js ''third''),
      userText (Some (js ''D'')) (Some (js ''C'')) (js ''fourth''),
      blankEntry\<lparr>etype := js ''file-history-snapshot'', snapshotMessageId := js ''D''\<rparr>]"


definition backupAt :: "jstring \<Rightarrow> rat \<Rightarrow> FileBackup" where
  "backupAt name n = \<lparr>backupFileName = Some name, version = Finite n, backupTime = None\<rparr>"

definition snapshotEntry :: "jstring \<Rightarrow> TrackedFileBackups \<Rightarrow> entry" where
  "snapshotEntry mid backups =
     blankEntry\<lparr>etype := js ''file-history-snapshot'', snapshotMessageId := mid,
       trackedFileBackups := backups\<rparr>"

definition snapshotTable :: "(jstring \<times> entry) list" where
  "snapshotTable =
     [(js ''u1'', (userText (Some (js ''U1'')) None (js ''write f''))\<lparr>entrySessionId := Some (js ''S'')\<rparr>),
      (js ''s1'', snapshotEntry (js ''U1'') [(js ''f'', backupAt (js ''h@v1'') 1)]),
      (js ''u2'', userText (Some (js ''U2'')) (Some (js ''U1'')) (js ''again'')),
      (js ''s2'', snapshotEntry (js ''U2'') [(js ''f'', backupAt (js ''h@v2'') 2)])]"

definition snapshotText :: jstring where
  "snapshotText = js ''u1'' @ 0x0A # js ''s1'' @ 0x0A # js ''u2'' @ 0x0A # js ''s2''"

definition snapshotDisk :: filesystem where
  "snapshotDisk =
     \<lparr>fileContent = (\<lambda>p. if p = js ''t.jsonl'' then Some snapshotText else None),
      historyDir = (\<lambda>sid. if sid = js ''S'' then Listing [js ''h@v1'', js ''h@v2'', js ''h@v3''] else Missing),
      mtime = (\<lambda>p. 0)\<rparr>"

text \<open>A disk whose backup directory lists the given files.\<close>

definition historyDisk :: "jstring list \<Rightarrow> filesystem" where
  "historyDisk files =
     \<lparr>fileContent = (\<lambda>p. None), historyDir = (\<lambda>sid. Listing files), mtime = (\<lambda>p. 0)\<rparr>"

text \<open>
  Prompts for the change-set deriver. In \<open>orderPrompt\<close> a file is first touched and two
  recorded originals match it, one by basename and a later one by normalized path. In
  \<open>sameNamePrompt\<close> two edited files of different directories share their basename.
  \<open>classifyPrompt\<close> has a kept, a deleted, a modified, a new and a first-touched file;
  \<open>editedPrompt\<close> has an edited file whose snapshot version did not change and an edited
  file that no snapshot knows.
\<close>

definition blankPrompt :: ParsedPrompt where
  "blankPrompt =
     \<lparr>promptNumber = 1, messageId = js ''U1'', parentMessageId = None, promptText = js ''ask'',
      promptTimestamp = [], beforeSnapshot = [], afterSnapshot = [], toolsUsed = [],
      editedFiles = [], originalFileContents = []\<rparr>"





section \<open>Verified properties\<close>

subsection \<open>String literals\<close>




subsection \<open>Prompts when no entry carries an id\<close>

text \<open>
  C1. The claim: in a log in which no event carries an id the active-id set is empty,
  and the assembler then includes every plain-text, non-meta user event. The set is
  empty, as claimed; but the second pass keeps an entry only when its id is a member of
  the set, so on the one-line transcript below (a plain-text user entry without an id)
  the session has no prompt at all. The comment at line 552 of the source says "all
  prompts will be shown".
\<close>

theorem no_id_log_has_no_prompt:
  "loadEntries (map_of noIdTable) (js ''hello'') = [userText None None (js ''hello'')]
   \<and> findActiveConversationPath [userText None None (js ''hello'')] = Some {}
   \<and> parseTranscript (map_of noIdTable) (diskWith (js ''t.jsonl'') (js ''hello'')) (js ''t.jsonl'')
       = Some (Some \<lparr>sessionId = [], projectPath = [], transcriptPath = js ''t.jsonl'',
                      prompts = [], lastUpdated = 0\<rparr>)"
  by code_simp

subsection \<open>Tool usage attribution\<close>

text \<open>
  C2. The claim: the tool name of every tool-invocation block is recorded against the
  plain-text user event reached by walking the parent links, never against a user event
  whose content is not plain text. The walk of lines 129-134 stops at the first entry of
  type user, whatever its content: in \<open>toolChainLog\<close> the tool of \<open>A2\<close> is recorded
  against the tool result \<open>T1\<close>, and the prompt \<open>U1\<close> lists only the tool of \<open>A1\<close>. The
  walk of lines 156-162 for edited files does test for plain text.
\<close>

theorem tool_recorded_against_tool_result:
  "map_option (\<lambda>st. (toolsPerPrompt st (js ''U1''), toolsPerPrompt st (js ''T1''))) (firstPass toolChainLog)
     = Some (Some [js ''Read''], Some [js ''Edit''])
   \<and> map_option (map_option (\<lambda>s. map (\<lambda>p. (messageId p, toolsUsed p)) (prompts s)))
        (assembleSession (diskWith [] []) (js ''t.jsonl'') toolChainLog)
     = Some (Some [(js ''U1'', [js ''Read''])])"
  by code_simp

subsection \<open>The event log loader\<close>

lemma decodeLines_append:
  "decodeLines jp (xs @ ys) = decodeLines jp xs @ decodeLines jp ys"
  by (induction xs) (auto split: option.splits)

lemma decodeLines_map_filter: "decodeLines jp ls = List.map_filter jp ls"
  by (induction ls) (auto simp: List.map_filter_simps split: option.splits)

lemma decodeLines_valid_only:
  "decodeLines jp ls = decodeLines jp (filter (\<lambda>l. jp l \<noteq> None) ls)"
  by (induction ls) (auto split: option.splits)

lemma decodeLines_all_fail:
  "(\<And>l. l \<in> set ls \<Longrightarrow> jp l = None) \<Longrightarrow> decodeLines jp ls = []"
  by (induction ls) auto

lemma trim_blank: "\<forall>c\<in>set s. isSpace c \<Longrightarrow> trim s = []"
proof -
  assume "\<forall>c\<in>set s. isSpace c"
  then have "dropWhile isSpace s = []" by simp
  then show ?thesis unfolding trim_def by (simp only: rev.simps dropWhile.simps)
qed

lemma logLines_blank: "\<forall>c\<in>set s. isSpace c \<Longrightarrow> logLines s = []"
  by (simp add: logLines_def trim_blank)

lemma splitNl_not_Nil: "splitNl s \<noteq> []"
  by (induction s) (auto split: list.splits)

lemma splitNl_append:
  "splitNl (x @ 0x0A # y) = splitNl x @ splitNl y"
proof (induction x)
  case Nil
  show ?case by simp
next
  case (Cons c x)
  obtain l ls where s: "splitNl x = l # ls"
    using splitNl_not_Nil [of x] by (cases "splitNl x") auto
  show ?case using Cons s by simp
qed

lemma splitNl_no_newline: "0x0A \<notin> set s \<Longrightarrow> splitNl s = [s]"
  by (induction s) auto

lemma dropWhile_append_keep:
  "\<exists>c\<in>set a. \<not> P c \<Longrightarrow> dropWhile P (a @ r) = dropWhile P a @ r"
  by (induction a) auto

lemma trim_append:
  assumes a: "\<exists>c\<in>set a. \<not> isSpace c" and b: "\<exists>c\<in>set b. \<not> isSpace c"
  shows "trim (a @ m @ b) = dropWhile isSpace a @ m @ rev (dropWhile isSpace (rev b))"
proof -
  have 1: "dropWhile isSpace (a @ m @ b) = dropWhile isSpace a @ m @ b"
    using a by (rule dropWhile_append_keep)
  have "\<exists>c\<in>set (rev b). \<not> isSpace c" using b by simp
  then have 2: "dropWhile isSpace (rev b @ rev m @ rev (dropWhile isSpace a))
      = dropWhile isSpace (rev b) @ rev m @ rev (dropWhile isSpace a)"
    by (rule dropWhile_append_keep)
  show ?thesis by (simp add: trim_def 1 2)
qed

lemma logLines_insert:
  assumes a: "\<exists>c\<in>set a. \<not> isSpace c" and b: "\<exists>c\<in>set b. \<not> isSpace c"
    and nl: "0x0A \<notin> set bad"
  shows "logLines (a @ 0x0A # bad @ 0x0A # b)
     = filter (\<lambda>l. trim l \<noteq> []) (splitNl (dropWhile isSpace a))
       @ filter (\<lambda>l. trim l \<noteq> []) [bad]
       @ filter (\<lambda>l. trim l \<noteq> []) (splitNl (rev (dropWhile isSpace (rev b))))"
proof -
  have "trim (a @ (0x0A # bad @ [0x0A]) @ b)
      = dropWhile isSpace a @ (0x0A # bad @ [0x0A]) @ rev (dropWhile isSpace (rev b))"
    using a b by (rule trim_append)
  then have "trim (a @ 0x0A # bad @ 0x0A # b)
      = dropWhile isSpace a @ 0x0A # bad @ 0x0A # rev (dropWhile isSpace (rev b))"
    by simp
  then show ?thesis
    by (simp add: logLines_def splitNl_append splitNl_no_newline nl del: splitNl.simps)
qed

lemma logLines_without:
  assumes a: "\<exists>c\<in>set a. \<not> isSpace c" and b: "\<exists>c\<in>set b. \<not> isSpace c"
  shows "logLines (a @ 0x0A # b)
     = filter (\<lambda>l. trim l \<noteq> []) (splitNl (dropWhile isSpace a))
       @ filter (\<lambda>l. trim l \<noteq> []) (splitNl (rev (dropWhile isSpace (rev b))))"
proof -
  have "trim (a @ [0x0A] @ b)
      = dropWhile isSpace a @ [0x0A] @ rev (dropWhile isSpace (rev b))"
    using a b by (rule trim_append)
  then show ?thesis
    by (simp add: logLines_def splitNl_append del: splitNl.simps)
qed

lemma loadEntries_skip:
  assumes a: "\<exists>c\<in>set a. \<not> isSpace c" and b: "\<exists>c\<in>set b. \<not> isSpace c"
    and nl: "0x0A \<notin> set bad" and bad: "jp bad = None"
  shows "loadEntries jp (a @ 0x0A # bad @ 0x0A # b) = loadEntries jp (a @ 0x0A # b)"
proof -
  note i = logLines_insert [OF a b nl] and w = logLines_without [OF a b]
  show ?thesis using bad by (simp add: loadEntries_def i w decodeLines_append)
qed

lemma getLatestSnapshotFromDisk_fileContent:
  "getLatestSnapshotFromDisk (fs\<lparr>fileContent := f\<rparr>) sid snap = getLatestSnapshotFromDisk fs sid snap"
  by (simp add: getLatestSnapshotFromDisk_def)

lemma assembleSession_fileContent:
  "assembleSession (fs\<lparr>fileContent := f\<rparr>) path es = assembleSession fs path es"
  by (simp add: assembleSession_def getLatestSnapshotFromDisk_fileContent split: option.splits)

text \<open>
  C9. Each line is decoded on its own and a line that fails to decode is skipped: the
  entries of a log are the decoded values of its lines that decode, in order, and they
  are the same when only those lines are decoded. A malformed line between two parts of a
  log changes neither the entries nor the outcome of \<open>parseTranscript\<close>, which is the
  outcome on the log without that line (so a log of ten well-formed lines and one
  malformed line gives the ten prompts of its well-formed lines). The loader is a total
  function: no failure is raised.
\<close>

theorem malformed_line_is_skipped:
  assumes "jsonParse bad = None" and "0x0A \<notin> set bad"
    and "\<exists>c\<in>set a. \<not> isSpace c" and "\<exists>c\<in>set b. \<not> isSpace c"
    and "fileContent fs path = Some (a @ 0x0A # bad @ 0x0A # b)"
  shows "loadEntries jsonParse (a @ 0x0A # bad @ 0x0A # b)
           = loadEntries jsonParse (a @ 0x0A # b)
       \<and> parseTranscript jsonParse fs path
           = parseTranscript jsonParse
               (fs\<lparr>fileContent := (fileContent fs)(path \<mapsto> a @ 0x0A # b)\<rparr>) path
       \<and> loadEntries jsonParse logText = List.map_filter jsonParse (logLines logText)
       \<and> loadEntries jsonParse logText
           = decodeLines jsonParse (filter (\<lambda>l. jsonParse l \<noteq> None) (logLines logText))"
proof -
  have skip: "loadEntries jsonParse (a @ 0x0A # bad @ 0x0A # b)
           = loadEntries jsonParse (a @ 0x0A # b)"
    using assms(3) assms(4) assms(2) assms(1) by (rule loadEntries_skip)
  have same: "parseTranscript jsonParse fs path
           = parseTranscript jsonParse
               (fs\<lparr>fileContent := (fileContent fs)(path \<mapsto> a @ 0x0A # b)\<rparr>) path"
    using assms(5) by (simp add: parseTranscript_def skip assembleSession_fileContent)
  have each: "loadEntries jsonParse logText = List.map_filter jsonParse (logLines logText)"
    by (simp add: loadEntries_def decodeLines_map_filter)
  have valid: "loadEntries jsonParse logText
           = decodeLines jsonParse (filter (\<lambda>l. jsonParse l \<noteq> None) (logLines logText))"
    unfolding loadEntries_def by (rule decodeLines_valid_only)
  show ?thesis using skip same each valid by blast
qed

theorem malformed_line_is_skipped_witness:
  "parseTranscript (map_of tenTable)
       (diskWith (js ''t.jsonl'') (firstFive @ 0x0A # js ''{broken'' @ 0x0A # lastFive)) (js ''t.jsonl'')
     = parseTranscript (map_of tenTable)
         ((diskWith (js ''t.jsonl'') (firstFive @ 0x0A # js ''{broken'' @ 0x0A # lastFive))
            \<lparr>fileContent :=
               (fileContent (diskWith (js ''t.jsonl'')
                  (firstFive @ 0x0A # js ''{broken'' @ 0x0A # lastFive)))
               ((js ''t.jsonl'') \<mapsto> firstFive @ 0x0A # lastFive)\<rparr>) (js ''t.jsonl'')
   \<and> map_option (map_option (\<lambda>s. map promptNumber (prompts s)))
        (parseTranscript (map_of tenTable)
           (diskWith (js ''t.jsonl'') (firstFive @ 0x0A # js ''{broken'' @ 0x0A # lastFive))
           (js ''t.jsonl''))
     = Some (Some [1, 2, 3, 4, 5, 6, 7, 8, 9, 10])"
proof -
  have 1: "map_of tenTable (js ''{broken'') = None" by code_simp
  have 2: "0x0A \<notin> set (js ''{broken'')" by code_simp
  have 3: "\<exists>c\<in>set firstFive. \<not> isSpace c" by code_simp
  have 4: "\<exists>c\<in>set lastFive. \<not> isSpace c" by code_simp
  have 5: "fileContent (diskWith (js ''t.jsonl'') (firstFive @ 0x0A # js ''{broken'' @ 0x0A # lastFive))
             (js ''t.jsonl'') = Some (firstFive @ 0x0A # js ''{broken'' @ 0x0A # lastFive)"
    by (simp add: diskWith_def)
  note m = malformed_line_is_skipped
    [where jsonParse = "map_of tenTable" and bad = "js ''{broken''" and a = firstFive
       and b = lastFive and path = "js ''t.jsonl''" and logText = "[]", OF 1 2 3 4 5]
  have n: "map_option (map_option (\<lambda>s. map promptNumber (prompts s)))
        (parseTranscript (map_of tenTable)
           (diskWith (js ''t.jsonl'') (firstFive @ 0x0A # js ''{broken'' @ 0x0A # lastFive))
           (js ''t.jsonl''))
     = Some (Some [1, 2, 3, 4, 5, 6, 7, 8, 9, 10])"
    by code_simp
  show ?thesis using m n by blast
qed

text \<open>
  C10. When the transcript file exists and none of its lines decodes (the file is empty
  or holds only white space, or every line is malformed), \<open>parseTranscript\<close> returns
  \<^verbatim>\<open>null\<close>, not a session without prompts.
\<close>

theorem no_decodable_line_gives_null:
  assumes "fileContent fs path = Some logText"
    and "(\<forall>c\<in>set logText. isSpace c) \<or> (\<forall>line\<in>set (logLines logText). jsonParse line = None)"
  shows "parseTranscript jsonParse fs path = Some None"
proof -
  have "\<forall>line\<in>set (logLines logText). jsonParse line = None"
    using assms(2) logLines_blank [of logText] by auto
  then have "loadEntries jsonParse logText = []"
    by (simp add: loadEntries_def decodeLines_all_fail)
  then show ?thesis using assms(1) by (simp add: parseTranscript_def assembleSession_def)
qed

theorem no_decodable_line_gives_null_witness:
  "parseTranscript (map_of tenTable) (diskWith (js ''t.jsonl'') (js ''{broken'' @ 0x0A # js '' nope '')) (js ''t.jsonl'')
     = Some None
   \<and> parseTranscript (map_of tenTable) (diskWith (js ''t.jsonl'') (js '' '' @ [0x0A, 0x09])) (js ''t.jsonl'')
     = Some None"
proof -
  have l: "logLines (js ''{broken'' @ 0x0A # js '' nope '') = [js ''{broken'', js '' nope'']"
    by code_simp
  have 1: "(\<forall>c\<in>set (js ''{broken'' @ 0x0A # js '' nope ''). isSpace c)
      \<or> (\<forall>line\<in>set (logLines (js ''{broken'' @ 0x0A # js '' nope '')). map_of tenTable line = None)"
    unfolding l by code_simp
  have 2: "(\<forall>c\<in>set (js '' '' @ [0x0A, 0x09]). isSpace c)
      \<or> (\<forall>line\<in>set (logLines (js '' '' @ [0x0A, 0x09])). map_of tenTable line = None)"
    by code_simp
  have a: "parseTranscript (map_of tenTable)
      (diskWith (js ''t.jsonl'') (js ''{broken'' @ 0x0A # js '' nope '')) (js ''t.jsonl'') = Some None"
    by (rule no_decodable_line_gives_null [OF _ 1]) (simp add: diskWith_def)
  have b: "parseTranscript (map_of tenTable)
      (diskWith (js ''t.jsonl'') (js '' '' @ [0x0A, 0x09])) (js ''t.jsonl'') = Some None"
    by (rule no_decodable_line_gives_null [OF _ 2]) (simp add: diskWith_def)
  show ?thesis using a b by blast
qed

subsection \<open>The second and third pass\<close>

lemma secondPassFrom_acc:
  "secondPassFrom A snaps st n ps es = ps @ secondPassFrom A snaps st n [] es"
proof (induction es arbitrary: n ps)
  case Nil
  show ?case by simp
next
  case (Cons e es)
  note ih = Cons.IH [of "Suc n" "ps @ [x]" for x] Cons.IH [of "Suc n" "[x]" for x] Cons.IH [of n ps]
  show ?case
    by (simp add: ih split: message_content.splits option.splits)
qed

lemma secondPassFrom_keep:
  assumes "isPromptEvent A e"
  shows "\<exists>u t. uuid e = Some u \<and> content e = TextContent t \<and> u \<in> A
           \<and> secondPassFrom A snaps st n [] (e # es)
               = newPrompt snaps st (Suc n) u t e # secondPassFrom A snaps st (Suc n) [] es"
  using assms secondPassFrom_acc [of A snaps st "Suc n" "[x]" es for x]
  by (auto simp: isPromptEvent_def isPlainText_def split: message_content.splits option.splits)

lemma secondPassFrom_skip:
  assumes "\<not> isPromptEvent A e"
  shows "secondPassFrom A snaps st n [] (e # es) = secondPassFrom A snaps st n [] es"
  using assms
  by (auto simp: isPromptEvent_def isPlainText_def split: message_content.splits option.splits)





lemma secondPassFrom_length:
  "length (secondPassFrom A snaps st n [] es) = length (filter (isPromptEvent A) es)"
proof (induction es arbitrary: n)
  case Nil show ?case by simp
next
  case (Cons e es)
  show ?case
  proof (cases "isPromptEvent A e")
    case True
    from secondPassFrom_keep [OF True, of snaps st n es] show ?thesis
      using True by (auto simp: Cons.IH simp del: secondPassFrom.simps)
  next
    case False
    then show ?thesis by (simp add: secondPassFrom_skip Cons.IH del: secondPassFrom.simps)
  qed
qed

lemma secondPassFrom_member:
  "p \<in> set (secondPassFrom A snaps st n [] es) \<Longrightarrow> messageId p \<in> A"
proof (induction es arbitrary: n)
  case Nil then show ?case by simp
next
  case (Cons e es)
  show ?case
  proof (cases "isPromptEvent A e")
    case True
    from secondPassFrom_keep [OF True, of snaps st n es] show ?thesis
      using Cons by (auto simp: newPrompt_def simp del: secondPassFrom.simps)
  next
    case False
    then show ?thesis using Cons by (simp add: secondPassFrom_skip del: secondPassFrom.simps)
  qed
qed

lemma length_linkStep: "length (linkStep L ps i) = length ps"
  by (simp add: linkStep_def)

lemma length_thirdPassUpTo: "length (thirdPassUpTo k L ps) = length ps"
  by (induction k) (simp_all add: thirdPassUpTo_def length_linkStep)

lemma thirdPassUpTo_Suc:
  "thirdPassUpTo (Suc k) L ps = linkStep L (thirdPassUpTo k L ps) k"
  by (simp add: thirdPassUpTo_def)

lemma linkStep_nth:
  "j < length ps \<Longrightarrow> linkStep L ps i ! j =
     (if j = i then (ps ! i)\<lparr>afterSnapshot :=
         (if i < length ps - 1 then beforeSnapshot (ps ! (i + 1)) else L)\<rparr> else ps ! j)"
  by (auto simp: linkStep_def)

lemma thirdPassUpTo_nth:
  "j < length ps \<Longrightarrow> thirdPassUpTo k L ps ! j =
     (if j < k then (ps ! j)\<lparr>afterSnapshot :=
         (if j < length ps - 1 then beforeSnapshot (ps ! (j + 1)) else L)\<rparr> else ps ! j)"
proof (induction k arbitrary: j)
  case 0
  show ?case by (simp add: thirdPassUpTo_def)
next
  case (Suc k)
  have len: "length (thirdPassUpTo k L ps) = length ps" by (rule length_thirdPassUpTo)
  show ?case
  proof (cases "Suc k < length ps")
    case True
    then show ?thesis using Suc
      by (simp add: thirdPassUpTo_Suc linkStep_nth len less_Suc_eq)
  next
    case False
    then show ?thesis using Suc
      by (auto simp add: thirdPassUpTo_Suc linkStep_nth len less_Suc_eq)
  qed
qed

lemma thirdPass_nth:
  "j < length ps \<Longrightarrow> thirdPass L ps ! j =
     (ps ! j)\<lparr>afterSnapshot := (if j < length ps - 1 then beforeSnapshot (ps ! (j + 1)) else L)\<rparr>"
  by (simp add: thirdPass_def thirdPassUpTo_nth)

lemma length_thirdPass: "length (thirdPass L ps) = length ps"
  by (simp add: thirdPass_def length_thirdPassUpTo)

lemma thirdPass_map:
  assumes "\<And>p x. f (p\<lparr>afterSnapshot := x\<rparr>) = f p"
  shows "map f (thirdPass L ps) = map f ps"
  by (rule nth_equalityI) (simp_all add: length_thirdPass thirdPass_nth assms)

lemma thirdPass_fields:
  "map messageId (thirdPass L ps) = map messageId ps"
  "map promptNumber (thirdPass L ps) = map promptNumber ps"
  "map promptText (thirdPass L ps) = map promptText ps"
  "map beforeSnapshot (thirdPass L ps) = map beforeSnapshot ps"
  by (rule thirdPass_map, simp)+

lemma assembleSession_prompts:
  assumes "assembleSession fs path es = Some (Some s)"
  shows "\<exists>A st. findActiveConversationPath es = Some A \<and> firstPass es = Some st
     \<and> prompts s = thirdPass (getLatestSnapshotFromDisk fs (sessionIdOf es) (latestSnapshot es))
                      (secondPass A (snapshotMap es) st es)
     \<and> sessionId s = sessionIdOf es"
  using assms by (auto simp: assembleSession_def split: if_splits option.splits)

lemma latestSnapshotFrom_last:
  "latestSnapshotFrom l es =
     (if filter (\<lambda>e. etype e = js ''file-history-snapshot'') es = [] then l
      else trackedFileBackups (last (filter (\<lambda>e. etype e = js ''file-history-snapshot'') es)))"
  by (induction es arbitrary: l) auto

subsection \<open>When the walks return\<close>

lemma causal_append:
  "causal (pre @ x # post) \<Longrightarrow> truthy (parentUuid x) = Some p
     \<Longrightarrow> Some p \<notin> uuid ` set (x # post)"
  by (induction pre) auto

lemma truthy_Some: "truthy v = Some p \<Longrightarrow> v = Some p"
  by (auto simp: truthy_def split: option.splits if_splits)

lemma findByUuid_Some:
  "findByUuid es r = Some e \<Longrightarrow> e \<in> set es \<and> uuid e = r \<and> r \<noteq> None"
  by (auto simp: findByUuid_def find_Some_iff split: option.splits)

lemma toolRootWalk_returns:
  assumes "causal (pre @ post)" and "parented (pre @ post)"
    and "cur = None \<or> (\<exists>e. cur = Some e \<and> e \<in> set pre \<and> uuid e \<noteq> None)"
  shows "\<exists>r. toolRootWalk (pre @ post) rid cur = Some r"
  using assms
proof (induction pre arbitrary: post rid cur rule: rev_induct)
  case Nil
  then show ?case by (simp add: toolRootWalk.simps)
next
  case (snoc x pre)
  have c: "causal (pre @ x # post)" and p: "parented (pre @ x # post)"
    using snoc.prems by simp_all
  show ?case
  proof (cases cur)
    case None
    then show ?thesis by (simp add: toolRootWalk.simps)
  next
    case (Some e)
    then have e: "e \<in> set pre \<or> e = x" and ue: "uuid e \<noteq> None"
      using snoc.prems(3) by auto
    show ?thesis
    proof (cases "e \<in> set pre")
      case True
      have "\<exists>r. toolRootWalk (pre @ x # post) rid cur = Some r"
        using c p Some True ue by (intro snoc.IH) auto
      then show ?thesis by simp
    next
      case False
      then have ex: "e = x" using e by simp
      show ?thesis
      proof (cases "etype x = js ''user''")
        case True
        then show ?thesis using Some ex by (simp add: toolRootWalk.simps)
      next
        case nu: False
        have "truthy (parentUuid x) \<noteq> None"
          using p nu ue ex by (auto simp: parented_def)
        then obtain q where q: "truthy (parentUuid x) = Some q" by auto
        have notin: "Some q \<notin> uuid ` set (x # post)"
          using c q by (rule causal_append)
        have nxt: "findByUuid (pre @ x # post) (Some q) = None
            \<or> (\<exists>e'. findByUuid (pre @ x # post) (Some q) = Some e' \<and> e' \<in> set pre \<and> uuid e' \<noteq> None)"
        proof (cases "findByUuid (pre @ x # post) (Some q)")
          case None then show ?thesis by simp
        next
          case (Some e')
          from findByUuid_Some [OF Some] have "e' \<in> set (pre @ x # post)" and "uuid e' = Some q"
            by simp_all
          moreover from this notin have "e' \<notin> set (x # post)" by force
          ultimately show ?thesis using Some by auto
        qed
        have "\<exists>r. toolRootWalk (pre @ x # post) (Some q) (findByUuid (pre @ x # post) (Some q)) = Some r"
          using c p nxt by (intro snoc.IH)
        then show ?thesis using Some ex nu q
          by (subst toolRootWalk.simps) simp
      qed
    qed
  qed
qed

lemma editRootWalk_returns:
  assumes "causal (pre @ post)"
    and "cur = None \<or> (\<exists>e. cur = Some e \<and> e \<in> set pre)"
  shows "\<exists>r. editRootWalk (pre @ post) rid cur = Some r"
  using assms
proof (induction pre arbitrary: post rid cur rule: rev_induct)
  case Nil
  then show ?case by (simp add: editRootWalk.simps)
next
  case (snoc x pre)
  have c: "causal (pre @ x # post)"
    using snoc.prems by simp_all
  show ?case
  proof (cases cur)
    case None
    then show ?thesis by (simp add: editRootWalk.simps)
  next
    case (Some e)
    then have e: "e \<in> set pre \<or> e = x"
      using snoc.prems(2) by auto
    show ?thesis
    proof (cases "e \<in> set pre")
      case True
      have "\<exists>r. editRootWalk (pre @ x # post) rid cur = Some r"
        using c Some True by (intro snoc.IH) auto
      then show ?thesis by simp
    next
      case False
      then have ex: "e = x" using e by simp
      show ?thesis
      proof (cases "truthy (parentUuid x)")
        case None
        then show ?thesis using Some ex by (simp add: editRootWalk.simps)
      next
        case q: (Some q)
        have notin: "Some q \<notin> uuid ` set (x # post)"
          using c q by (rule causal_append)
        have nxt: "findByUuid (pre @ x # post) (Some q) = None
            \<or> (\<exists>e'. findByUuid (pre @ x # post) (Some q) = Some e' \<and> e' \<in> set pre)"
        proof (cases "findByUuid (pre @ x # post) (Some q)")
          case None then show ?thesis by simp
        next
          case (Some e')
          from findByUuid_Some [OF Some] have "e' \<in> set (pre @ x # post)" and "uuid e' = Some q"
            by simp_all
          moreover from this notin have "e' \<notin> set (x # post)" by force
          ultimately show ?thesis using Some by auto
        qed
        have "\<exists>r. editRootWalk (pre @ x # post) (Some q) (findByUuid (pre @ x # post) (Some q)) = Some r"
          using c nxt by (intro snoc.IH)
        then show ?thesis using Some ex q
          by (subst editRootWalk.simps) auto
      qed
    qed
  qed
qed

lemma entryByUuidFrom_Some:
  "entryByUuidFrom m es p = Some e \<Longrightarrow> (e \<in> set es \<and> getUuid e = Some p) \<or> m p = Some e"
proof (induction es arbitrary: m)
  case Nil
  then show ?case by simp
next
  case (Cons a es)
  show ?case
  proof (cases "getUuid a")
    case None
    then show ?thesis using Cons.IH [of m] Cons.prems by auto
  next
    case (Some u)
    then have "entryByUuidFrom (m(u \<mapsto> a)) es p = Some e" using Cons.prems by simp
    from Cons.IH [OF this] show ?thesis using Some by (auto split: if_splits)
  qed
qed

lemma entryByUuid_Some:
  "entryByUuid es p = Some e \<Longrightarrow> e \<in> set es \<and> uuid e = Some p"
  using entryByUuidFrom_Some [of Map.empty es p e]
  by (auto simp: entryByUuid_def getUuid_def dest: truthy_Some)

lemma walkActive_returns:
  assumes "causal (pre @ post)"
    and "\<And>p e. m p = Some e \<Longrightarrow> e \<in> set (pre @ post) \<and> uuid e = Some p"
    and "cur = None \<or> (\<exists>e. cur = Some e \<and> e \<in> set pre)"
  shows "\<exists>r. walkActive m acc cur = Some r"
  using assms
proof (induction pre arbitrary: post acc cur rule: rev_induct)
  case Nil
  then show ?case by (simp add: walkActive.simps)
next
  case (snoc x pre)
  have c: "causal (pre @ x # post)"
    using snoc.prems by simp_all
  have m: "\<And>p e. m p = Some e \<Longrightarrow> e \<in> set (pre @ x # post) \<and> uuid e = Some p"
    using snoc.prems(2) by simp
  show ?case
  proof (cases cur)
    case None
    then show ?thesis by (simp add: walkActive.simps)
  next
    case (Some e)
    then have e: "e \<in> set pre \<or> e = x"
      using snoc.prems(3) by auto
    show ?thesis
    proof (cases "e \<in> set pre")
      case True
      show ?thesis
        using c m Some True by (intro snoc.IH [of "x # post"]) auto
    next
      case False
      then have ex: "e = x" using e by simp
      show ?thesis
      proof (cases "getParentUuid x")
        case None
        then show ?thesis using Some ex by (simp add: walkActive.simps)
      next
        case q: (Some q)
        have notin: "Some q \<notin> uuid ` set (x # post)"
          using c q unfolding getParentUuid_def by (rule causal_append)
        have nxt: "m q = None \<or> (\<exists>e'. m q = Some e' \<and> e' \<in> set pre)"
        proof (cases "m q")
          case None then show ?thesis by simp
        next
          case (Some e')
          from m [OF Some] have "e' \<in> set (pre @ x # post)" and "uuid e' = Some q"
            by simp_all
          moreover from this notin have "e' \<notin> set (x # post)" by force
          ultimately show ?thesis using Some by auto
        qed
        have "\<exists>r. walkActive m acc' (m q) = Some r" for acc'
          using c m nxt by (intro snoc.IH [of "x # post"]) auto
        then show ?thesis using Some ex q
          by (subst walkActive.simps) auto
      qed
    qed
  qed
qed

lemma find_Some_set: "find P xs = Some x \<Longrightarrow> x \<in> set xs"
  by (induction xs) (auto split: if_splits)

lemma findActiveConversationPath_returns:
  assumes "causal es"
  shows "\<exists>A. findActiveConversationPath es = Some A"
proof (cases "lastEntry es")
  case None
  then show ?thesis by (simp add: findActiveConversationPath_def)
next
  case (Some e)
  then have "e \<in> set es" using find_Some_set [of _ "rev es" e] by (simp add: lastEntry_def)
  then show ?thesis
    using walkActive_returns [of es "[]" "entryByUuid es" "Some e" "{}"] assms Some entryByUuid_Some
    by (auto simp: findActiveConversationPath_def)
qed

lemma toolBlocks_returns:
  assumes "causal es" and "parented es"
  shows "\<exists>st'. toolBlocks es parentId st bs = Some st'"
proof (induction bs arbitrary: st)
  case Nil
  show ?case by simp
next
  case (Cons b bs)
  have cur: "findByUuid es parentId = None
      \<or> (\<exists>e. findByUuid es parentId = Some e \<and> e \<in> set es \<and> uuid e \<noteq> None)"
    using findByUuid_Some [of es parentId] by (cases "findByUuid es parentId") auto
  obtain r where r: "toolRootWalk es parentId (findByUuid es parentId) = Some r"
    using toolRootWalk_returns [of es "[]" "findByUuid es parentId" parentId] assms cur by auto
  show ?case using Cons.IH r by (auto split: option.splits)
qed

lemma toolAttribution_returns:
  assumes "causal es" and "parented es"
  shows "\<exists>st'. toolAttribution es st e = Some st'"
  using toolBlocks_returns [OF assms]
  by (auto simp: toolAttribution_def split: message_content.splits)

lemma editAttribution_returns:
  assumes "causal es"
  shows "\<exists>st'. editAttribution es st e = Some st'"
proof -
  have cur: "findByUuid es (parentUuid e) = None
      \<or> (\<exists>e'. findByUuid es (parentUuid e) = Some e' \<and> e' \<in> set es)"
    using findByUuid_Some [of es "parentUuid e"] by (cases "findByUuid es (parentUuid e)") auto
  obtain r where r: "editRootWalk es (parentUuid e) (findByUuid es (parentUuid e)) = Some r"
    using editRootWalk_returns [of es "[]" "findByUuid es (parentUuid e)" "parentUuid e"] assms cur
    by auto
  show ?thesis using r by (auto simp: editAttribution_def split: option.splits)
qed

lemma firstPassFrom_returns:
  assumes "causal es" and "parented es"
  shows "\<exists>st'. firstPassFrom es st rest = Some st'"
proof (induction rest arbitrary: st)
  case Nil
  show ?case by simp
next
  case (Cons e rest)
  obtain st1 where 1: "toolAttribution es st e = Some st1"
    using toolAttribution_returns [OF assms] by blast
  obtain st2 where 2: "editAttribution es st1 e = Some st2"
    using editAttribution_returns [OF assms(1)] by blast
  show ?case using Cons.IH [of st2] 1 2 by simp
qed

lemma assembleSession_returns:
  assumes "causal es" and "parented es" and "es \<noteq> []"
  shows "\<exists>s. assembleSession fs path es = Some (Some s)"
proof -
  obtain A where A: "findActiveConversationPath es = Some A"
    using findActiveConversationPath_returns [OF assms(1)] by blast
  obtain st where st: "firstPass es = Some st"
    using firstPassFrom_returns [OF assms(1,2)] unfolding firstPass_def by blast
  show ?thesis using assms(3) A st by (simp add: assembleSession_def)
qed

lemma parseTranscript_returns:
  assumes "fileContent fs path = Some logText" and "es = loadEntries jsonParse logText"
    and "causal es" and "parented es" and "es \<noteq> []"
  shows "\<exists>s. parseTranscript jsonParse fs path = Some (Some s)"
  using assms assembleSession_returns [of es fs path] by (simp add: parseTranscript_def)



subsection \<open>The active conversation path\<close>

lemma find_append:
  "find P (xs @ ys) = (case find P xs of None \<Rightarrow> find P ys | Some x \<Rightarrow> Some x)"
  by (induction xs) auto

lemma lastEntry_split:
  assumes "es = pre @ d # post" and "\<forall>e\<in>set post. getUuid e = None" and "getUuid d = Some D"
  shows "lastEntry es = Some d"
proof -
  have "find (\<lambda>e. getUuid e \<noteq> None) (rev post) = None"
    using assms(2) by (simp add: find_None_iff)
  then show ?thesis using assms(1,3) by (simp add: lastEntry_def find_append)
qed

lemma entryByUuidFrom_absent:
  "\<forall>e\<in>set es. getUuid e \<noteq> Some u \<Longrightarrow> entryByUuidFrom m es u = m u"
  by (induction es arbitrary: m) (auto split: option.splits)

lemma in_set_map_filter:
  "u \<in> set (List.map_filter f xs) \<longleftrightarrow> (\<exists>x\<in>set xs. f x = Some u)"
  by (induction xs) (auto split: option.splits)

lemma entryByUuidFrom_unique:
  assumes "distinct (List.map_filter getUuid es)" and "e \<in> set es" and "getUuid e = Some u"
  shows "entryByUuidFrom m es u = Some e"
  using assms
proof (induction es arbitrary: m)
  case Nil
  then show ?case by simp
next
  case (Cons x xs)
  show ?case
  proof (cases "getUuid x = Some u")
    case True
    then have no: "\<forall>y\<in>set xs. getUuid y \<noteq> Some u"
      using Cons.prems(1) by (auto simp: in_set_map_filter)
    then have "e = x" using Cons.prems(2,3) by auto
    then show ?thesis using True no by (simp add: entryByUuidFrom_absent)
  next
    case False
    then have "e \<in> set xs" using Cons.prems(2,3) by auto
    moreover have "distinct (List.map_filter getUuid xs)"
      using Cons.prems(1) by (auto split: option.splits)
    ultimately show ?thesis using Cons.IH Cons.prems(3) False
      by (auto split: option.splits)
  qed
qed

lemma entryByUuid_unique:
  "distinct (List.map_filter getUuid es) \<Longrightarrow> e \<in> set es \<Longrightarrow> getUuid e = Some u
     \<Longrightarrow> entryByUuid es u = Some e"
  unfolding entryByUuid_def by (rule entryByUuidFrom_unique)

lemma assembleSession_active:
  assumes "assembleSession fs path es = Some (Some s)" and "findActiveConversationPath es = Some A"
    and "p \<in> set (prompts s)"
  shows "messageId p \<in> A"
proof -
  from assembleSession_prompts [OF assms(1)] assms(2)
  obtain st L where ps: "prompts s = thirdPass L (secondPass A (snapshotMap es) st es)"
    by auto
  have "messageId p \<in> set (map messageId (thirdPass L (secondPass A (snapshotMap es) st es)))"
    using assms(3) unfolding ps by simp
  then have "messageId p \<in> set (map messageId (secondPass A (snapshotMap es) st es))"
    unfolding thirdPass_fields(1) .
  then show ?thesis by (auto simp: secondPass_def dest: secondPassFrom_member)
qed

text \<open>
  C3. In a log with unique ids whose last identified event is \<open>D\<close>, at the end of the
  parent chain from the root \<open>A\<close> through \<open>B\<close> and \<open>C\<close>, the active-id set is exactly
  \<open>{A, B, C, D}\<close>; every prompt of an assembled session carries one of these ids, so an
  event of a sibling branch, whose id is none of them, is in no prompt and gets no prompt
  number.
\<close>

theorem active_path_of_chain:
  assumes "distinct (List.map_filter getUuid es)"
    and "es = pre @ d # post" and "\<forall>e\<in>set post. getUuid e = None"
    and "getUuid d = Some D" and "getParentUuid d = Some C"
    and "c \<in> set es" and "getUuid c = Some C" and "getParentUuid c = Some B"
    and "b \<in> set es" and "getUuid b = Some B" and "getParentUuid b = Some A"
    and "a \<in> set es" and "getUuid a = Some A" and "getParentUuid a = None"
  shows "findActiveConversationPath es = Some {A, B, C, D}
       \<and> (\<forall>s. assembleSession fs path es = Some (Some s) \<longrightarrow>
            (\<forall>p\<in>set (prompts s). messageId p \<in> {A, B, C, D}))"
proof -
  have l: "lastEntry es = Some d" using assms(2,3,4) by (rule lastEntry_split)
  note u = entryByUuid_unique [OF assms(1)]
  have mc: "entryByUuid es C = Some c" using assms(6,7) by (rule u)
  have mb: "entryByUuid es B = Some b" using assms(9,10) by (rule u)
  have ma: "entryByUuid es A = Some a" using assms(12,13) by (rule u)
  have wa: "walkActive (entryByUuid es) {B, C, D} (Some a) = Some {A, B, C, D}"
    by (subst walkActive.simps) (simp add: assms(13,14))
  have wb: "walkActive (entryByUuid es) {C, D} (Some b) = Some {A, B, C, D}"
    by (subst walkActive.simps) (simp add: assms(10,11) ma wa)
  have wc: "walkActive (entryByUuid es) {D} (Some c) = Some {A, B, C, D}"
    by (subst walkActive.simps) (simp add: assms(7,8) mb wb)
  have wd: "walkActive (entryByUuid es) {} (Some d) = Some {A, B, C, D}"
    by (subst walkActive.simps) (simp add: assms(4,5) mc wc)
  have f: "findActiveConversationPath es = Some {A, B, C, D}"
    by (simp add: findActiveConversationPath_def l wd)
  show ?thesis using f assembleSession_active [OF _ f] by blast
qed

theorem active_path_of_chain_witness:
  "findActiveConversationPath rewindLog = Some {js ''A'', js ''B'', js ''C'', js ''D''}
   \<and> map_option (map_option (\<lambda>s. map (\<lambda>p. (promptNumber p, messageId p)) (prompts s)))
        (assembleSession (diskWith [] []) (js ''t.jsonl'') rewindLog)
     = Some (Some [(1, js ''A''), (2, js ''B''), (3, js ''C''), (4, js ''D'')])"
proof -
  have 1: "distinct (List.map_filter getUuid rewindLog)" by code_simp
  have 2: "rewindLog =
      [userText (Some (js ''A'')) None (js ''first''), userText (Some (js ''B'')) (Some (js ''A'')) (js ''second''),
       userText (Some (js ''B2'')) (Some (js ''A'')) (js ''second, rewound''),
       userText (Some (js ''C'')) (Some (js ''B'')) (js ''third'')]
      @ userText (Some (js ''D'')) (Some (js ''C'')) (js ''fourth'')
      # [blankEntry\<lparr>etype := js ''file-history-snapshot'', snapshotMessageId := js ''D''\<rparr>]"
    by (simp add: rewindLog_def)
  have 3: "\<forall>e\<in>set [blankEntry\<lparr>etype := js ''file-history-snapshot'', snapshotMessageId := js ''D''\<rparr>].
      getUuid e = None"
    by (simp add: blankEntry_def getUuid_def truthy_def)
  note t = active_path_of_chain [where es = rewindLog and D = "js ''D''" and C = "js ''C''" and B = "js ''B''" and A = "js ''A''"
      and c = "userText (Some (js ''C'')) (Some (js ''B'')) (js ''third'')"
      and b = "userText (Some (js ''B'')) (Some (js ''A'')) (js ''second'')"
      and a = "userText (Some (js ''A'')) None (js ''first'')"
      and fs = "diskWith [] []" and path = "js ''t.jsonl''", OF 1 2 3]
  have f: "findActiveConversationPath rewindLog = Some {js ''A'', js ''B'', js ''C'', js ''D''}"
    using t by (simp add: rewindLog_def userText_def blankEntry_def getUuid_def getParentUuid_def
        truthy_def js_def)
  have n: "map_option (map_option (\<lambda>s. map (\<lambda>p. (promptNumber p, messageId p)) (prompts s)))
        (assembleSession (diskWith [] []) (js ''t.jsonl'') rewindLog)
     = Some (Some [(1, js ''A''), (2, js ''B''), (3, js ''C''), (4, js ''D'')])"
    by code_simp
  show ?thesis using f n by blast
qed

subsection \<open>The prompts of a session\<close>






text \<open>
  C5. In an assembled session the after-snapshot of every prompt but the last is the
  before-snapshot of the next prompt, and the after-snapshot of the last prompt is the
  reconciler applied to the latest known snapshot, which is the \<open>trackedFileBackups\<close> of
  the last snapshot entry of the log (empty when there is none). An iteration of the third
  pass writes only the after-snapshot of its own prompt: the value a prompt has after
  iteration \<open>k\<close> of the loop is the one it has in the session.
\<close>

theorem afterSnapshot_linked:
  assumes "fileContent fs path = Some logText" and "es = loadEntries jsonParse logText"
    and "parseTranscript jsonParse fs path = Some (Some s)"
    and "latestFromDisk = getLatestSnapshotFromDisk fs (sessionId s) (latestSnapshot es)"
  shows "(\<forall>i. Suc i < length (prompts s) \<longrightarrow>
            afterSnapshot (prompts s ! i) = beforeSnapshot (prompts s ! Suc i))
       \<and> (prompts s \<noteq> [] \<longrightarrow> afterSnapshot (last (prompts s)) = latestFromDisk)
       \<and> latestSnapshot es =
           (if filter (\<lambda>e. etype e = js ''file-history-snapshot'') es = [] then []
            else trackedFileBackups (last (filter (\<lambda>e. etype e = js ''file-history-snapshot'') es)))
       \<and> (\<exists>ps. prompts s = thirdPass latestFromDisk ps
             \<and> (\<forall>k i. i < k \<and> k \<le> length ps \<longrightarrow>
                  afterSnapshot (thirdPassUpTo k latestFromDisk ps ! i)
                    = afterSnapshot (prompts s ! i)))"
proof -
  have p: "assembleSession fs path es = Some (Some s)"
    using assms by (simp add: parseTranscript_def)
  from assembleSession_prompts [OF p]
  obtain A st where ps: "prompts s = thirdPass latestFromDisk (secondPass A (snapshotMap es) st es)"
    using assms(4) by auto
  define ps0 where "ps0 = secondPass A (snapshotMap es) st es"
  have eq: "prompts s = thirdPass latestFromDisk ps0" using ps ps0_def by simp
  have len: "length (prompts s) = length ps0" by (simp add: eq length_thirdPass)
  have 1: "afterSnapshot (prompts s ! i) = beforeSnapshot (prompts s ! Suc i)"
    if "Suc i < length (prompts s)" for i
  proof -
    have "i < length ps0" and "i < length ps0 - 1" using that len by simp_all
    then show ?thesis by (simp add: eq thirdPass_nth)
  qed
  have 2: "afterSnapshot (last (prompts s)) = latestFromDisk" if "prompts s \<noteq> []"
  proof -
    have "ps0 \<noteq> []" using that len by auto
    then have "last (prompts s) = prompts s ! (length ps0 - 1)"
      using len that by (simp add: last_conv_nth)
    then show ?thesis using \<open>ps0 \<noteq> []\<close> by (simp add: eq thirdPass_nth)
  qed
  have 3: "latestSnapshot es =
           (if filter (\<lambda>e. etype e = js ''file-history-snapshot'') es = [] then []
            else trackedFileBackups (last (filter (\<lambda>e. etype e = js ''file-history-snapshot'') es)))"
    unfolding latestSnapshot_def by (rule latestSnapshotFrom_last)
  have 4: "afterSnapshot (thirdPassUpTo k latestFromDisk ps0 ! i) = afterSnapshot (prompts s ! i)"
    if "i < k \<and> k \<le> length ps0" for k i
    using that by (simp add: eq thirdPass_nth thirdPassUpTo_nth)
  show ?thesis using 1 2 3 4 eq by blast
qed

theorem afterSnapshot_linked_witness:
  "\<exists>s. parseTranscript (map_of snapshotTable) snapshotDisk (js ''t.jsonl'') = Some (Some s)
     \<and> afterSnapshot (prompts s ! 0) = beforeSnapshot (prompts s ! 1)
     \<and> beforeSnapshot (prompts s ! 1) = [(js ''f'', backupAt (js ''h@v2'') 2)]
     \<and> afterSnapshot (last (prompts s)) = [(js ''f'', backupAt (js ''h@v3'') 3)]"
proof -
  define es where "es = loadEntries (map_of snapshotTable) snapshotText"
  have 1: "fileContent snapshotDisk (js ''t.jsonl'') = Some snapshotText"
    by (simp add: snapshotDisk_def)
  have c: "causal (loadEntries (map_of snapshotTable) snapshotText)" by code_simp
  have p: "parented (loadEntries (map_of snapshotTable) snapshotText)" by code_simp
  have n: "loadEntries (map_of snapshotTable) snapshotText \<noteq> []" by code_simp
  obtain s where s: "parseTranscript (map_of snapshotTable) snapshotDisk (js ''t.jsonl'') = Some (Some s)"
    using parseTranscript_returns [OF 1 es_def] c p n unfolding es_def by blast
  have "map_option (map_option (\<lambda>s. (length (prompts s), sessionId s, beforeSnapshot (prompts s ! 1))))
      (parseTranscript (map_of snapshotTable) snapshotDisk (js ''t.jsonl''))
      = Some (Some (2, js ''S'', [(js ''f'', backupAt (js ''h@v2'') 2)]))"
    by code_simp
  then have len: "length (prompts s) = 2" and sid: "sessionId s = js ''S''"
    and b1: "beforeSnapshot (prompts s ! 1) = [(js ''f'', backupAt (js ''h@v2'') 2)]"
    using s by simp_all
  have l: "getLatestSnapshotFromDisk snapshotDisk (js ''S'')
      (latestSnapshot (loadEntries (map_of snapshotTable) snapshotText))
      = [(js ''f'', backupAt (js ''h@v3'') 3)]"
    by code_simp
  note t = afterSnapshot_linked [OF 1 es_def s refl]
  have a0: "afterSnapshot (prompts s ! 0) = beforeSnapshot (prompts s ! 1)"
    using t len by simp
  have ne: "prompts s \<noteq> []" using len by auto
  have al: "afterSnapshot (last (prompts s)) = [(js ''f'', backupAt (js ''h@v3'') 3)]"
    using t ne sid l unfolding es_def by simp
  show ?thesis using s a0 b1 al by blast
qed

subsection \<open>The backup store reconciler\<close>

lemma matchBackupName_Some:
  assumes "matchBackupName name = Some (h, ds)"
  shows "name = h @ js ''@v'' @ ds \<and> h \<noteq> [] \<and> ds \<noteq> []"
proof -
  from assms obtain h' where d: "dropWhile isDigit (rev name) = ch (CHR ''v'') # ch (CHR ''@'') # h'"
    and h: "h = rev h'" and ds: "ds = rev (takeWhile isDigit (rev name))"
    and ne: "takeWhile isDigit (rev name) \<noteq> []" "h' \<noteq> []"
    by (auto simp: matchBackupName_def split: list.splits if_splits)
  have "rev name = takeWhile isDigit (rev name) @ dropWhile isDigit (rev name)" by simp
  then have "rev name = rev ds @ ch (CHR ''v'') # ch (CHR ''@'') # rev h" using d h ds by simp
  then have "rev (rev name) = rev (rev ds @ ch (CHR ''v'') # ch (CHR ''@'') # rev h)" by simp
  then have "name = h @ js ''@v'' @ ds" by (simp add: js_def)
  then show ?thesis using ne h ds by simp
qed

lemma takeWhile_upto:
  "c \<notin> set h \<Longrightarrow> takeWhile (\<lambda>x. x \<noteq> c) (h @ c # r) = h"
  by (induction h) auto

text \<open>
  The two extractions of the hash agree on a recorded name whose hash holds no \<^verbatim>\<open>@\<close>.
\<close>

lemma recordedHash_match:
  assumes "matchBackupName name = Some (h, ds)" and "ch (CHR ''@'') \<notin> set h"
  shows "recordedHash name = h"
proof -
  have "name = h @ ch (CHR ''@'') # ch (CHR ''v'') # ds"
    using matchBackupName_Some [OF assms(1)] by (simp add: js_def)
  then show ?thesis using assms(2) by (simp add: recordedHash_def takeWhile_upto)
qed

text \<open>
  A version beyond \<open>2 ^ 53\<close> is read as the nearest number: the version \<open>2 ^ 53 + 1\<close> of a
  file name is the number \<open>2 ^ 53\<close>.
\<close>

lemma parseInt_rounds:
  "parseInt (js ''9007199254740993'') = Finite 9007199254740992
   \<and> parseInt (js ''9007199254740995'') = Finite 9007199254740996
   \<and> parseInt (js ''42'') = Finite 42"
  by (simp add: parseInt_def decimalValue_def toNumber_def js_def ch_def Let_def)

text \<open>
  C6. The claim: when the recorded backup file name matches \<^verbatim>\<open><hash>@v<version>\<close> and the
  directory holds a file of the same hash with a greater version, the entry is replaced by
  the file of the maximum version. The source groups the files of the directory under the
  first group of the regular expression (line 459) and, under the comment "Extract hash
  from backup file name", cuts the recorded name at its first \<^verbatim>\<open>@\<close> (line 478) instead of
  taking that group. The recorded name \<^verbatim>\<open>a@b@v1\<close> matches the pattern with hash \<^verbatim>\<open>a@b\<close>, the
  directory holds \<^verbatim>\<open>a@b@v2\<close> with the same hash and the greater version 2, the hash looked
  up is \<^verbatim>\<open>a\<close>, and the entry is not replaced. With the names \<^verbatim>\<open>h@v1\<close> and \<^verbatim>\<open>h@v2\<close> the entry
  is replaced.
\<close>

theorem reconciler_cuts_hash_at_first_at:
  "matchBackupName (js ''a@b@v1'') = Some (js ''a@b'', js ''1'')
   \<and> matchBackupName (js ''a@b@v2'') = Some (js ''a@b'', js ''2'')
   \<and> parseInt (js ''2'') = Finite 2
   \<and> recordedHash (js ''a@b@v1'') = js ''a''
   \<and> getLatestSnapshotFromDisk (historyDisk [js ''a@b@v1'', js ''a@b@v2'']) (js ''S'')
        [(js ''f'', backupAt (js ''a@b@v1'') 1)]
     = [(js ''f'', backupAt (js ''a@b@v1'') 1)]
   \<and> getLatestSnapshotFromDisk (historyDisk [js ''h@v1'', js ''h@v2'']) (js ''S'')
        [(js ''f'', backupAt (js ''h@v1'') 1)]
     = [(js ''f'', backupAt (js ''h@v2'') 2)]"
  by code_simp

subsection \<open>The change-set deriver\<close>






lemma find_None_conv: "find Q xs = None \<longleftrightarrow> (\<forall>x\<in>set xs. \<not> Q x)"
  by (induction xs) auto
























text \<open>
  A path that is the name of a property of \<^verbatim>\<open>Object.prototype\<close> is found in every snapshot:
  a file \<^verbatim>\<open>constructor\<close> that only the after-snapshot tracks is reported as modified, with
  the inherited value as its before backup, and so is an edited file \<^verbatim>\<open>toString\<close> that no
  snapshot tracks.
\<close>

lemma inherited_property_taken_for_backup:
  "getFileChangesForPrompt posixPath
       (blankPrompt\<lparr>afterSnapshot := [(js ''constructor'', backupAt (js ''c@v1'') 1)]\<rparr>) None
     = [mkChange (js ''constructor'')
          (blankPrompt\<lparr>afterSnapshot := [(js ''constructor'', backupAt (js ''c@v1'') 1)]\<rparr>)
          Modified (Some (Inherited (js ''constructor'')))
          (Some (Own (backupAt (js ''c@v1'') 1))) None]
   \<and> getFileChangesForPrompt posixPath (blankPrompt\<lparr>editedFiles := [js ''/proj/toString'']\<rparr>) None
     = [mkChange (js ''/proj/toString'') (blankPrompt\<lparr>editedFiles := [js ''/proj/toString'']\<rparr>)
          Modified (Some (Inherited (js ''toString''))) None None]"
  by code_simp

subsection \<open>Two remarks on the attribution and on logs without ids\<close>

text \<open>
  The walk for tool usage returns at any user entry, whatever its content: it has no test
  for plain text.
\<close>

lemma toolRootWalk_stops_at_user:
  "etype c = (js ''user'') \<Longrightarrow> toolRootWalk es rootId (Some c) = Some rootId"
  by (subst toolRootWalk.simps) simp

text \<open>
  When no entry of a log carries an id, the active-id set is empty and an assembled
  session has no prompt.
\<close>

lemma no_ids_no_prompts:
  assumes "\<forall>e\<in>set es. getUuid e = None"
  shows "findActiveConversationPath es = Some {}
       \<and> (\<forall>s. assembleSession fs path es = Some (Some s) \<longrightarrow> prompts s = [])"
proof -
  have "find (\<lambda>e. getUuid e \<noteq> None) (rev es) = None"
    using assms by (simp add: find_None_conv)
  then have a: "findActiveConversationPath es = Some {}"
    by (simp add: findActiveConversationPath_def lastEntry_def)
  have "prompts s = []" if s: "assembleSession fs path es = Some (Some s)" for s
  proof -
    have "filter (isPromptEvent {}) es = []"
      by (auto simp: isPromptEvent_def filter_empty_conv split: option.splits)
    moreover from assembleSession_prompts [OF s] a obtain st L where
      "prompts s = thirdPass L (secondPass {} (snapshotMap es) st es)" by auto
    ultimately have "length (prompts s) = 0"
      by (simp add: length_thirdPass secondPass_def secondPassFrom_length)
    then show ?thesis by simp
  qed
  then show ?thesis using a by blast
qed

end
